theory Spec2Isabelle
  imports Complex_Main "HOL-Library.Sublist"
begin

section \<open>Python string primitives used by the chunker\<close>

text \<open>
  A Python \<open>str\<close> is modelled as a \<open>string\<close>: one \<open>char\<close> stands for one code point
  (so the model covers the code points below 256) and \<open>length\<close> is Python's \<open>len\<close>.
  \<open>isspace\<close> is \<open>str.isspace\<close> on one character of that range; it is the
  whitespace that \<open>str.strip()\<close> and \<open>str.split()\<close> use.
\<close>

definition isspace :: "char \<Rightarrow> bool" where
  "isspace c =
     (let n = (of_char c :: nat)
      in (9 \<le> n \<and> n \<le> 13) \<or> (28 \<le> n \<and> n \<le> 32) \<or> n = 133 \<or> n = 160)"

text \<open>\<open>s.strip()\<close>: leading and trailing whitespace removed.\<close>

definition strip :: "string \<Rightarrow> string" where
  "strip s = rev (dropWhile isspace (rev (dropWhile isspace s)))"

text \<open>
  \<open>s.split(sep)\<close> for a non-empty separator (the chunker's only separator is the
  eight-character page marker): the pieces between the non-overlapping occurrences of
  \<open>sep\<close>, found from the left. There is always at least one piece.
\<close>

fun split_sep :: "string \<Rightarrow> string \<Rightarrow> string list" where
  "split_sep sep [] = [[]]"
| "split_sep sep (c # cs) =
     (if prefix sep (c # cs) then [] # split_sep sep (drop (length sep - 1) cs)
      else (case split_sep sep cs of
              [] \<Rightarrow> [[c]]
            | p # ps \<Rightarrow> (c # p) # ps))"

text \<open>
  \<open>s.split()\<close> without argument: leading whitespace is skipped, the characters up
  to the next whitespace form a word, and so on to the end of the string; no empty
  word is produced.
\<close>

function split_ws :: "string \<Rightarrow> string list" where
  "split_ws [] = []"
| "split_ws (c # cs) =
     (if isspace c then split_ws cs
      else (c # takeWhile (\<lambda>x. \<not> isspace x) cs) # split_ws (dropWhile (\<lambda>x. \<not> isspace x) cs))"
  by pat_completeness auto
termination
  by (relation "measure length") (auto simp: length_dropWhile_le le_imp_less_Suc)

section \<open>The chunker: \<open>LLMPDFExtractor.chunk_text\<close>\<close>

definition page_marker :: string where
  "page_marker = ''--- Page''"

text \<open>
  The inner loop over the words of an oversized page. The state is the list of
  chunks emitted so far and \<open>temp_chunk\<close>.
\<close>

fun pack_words :: "int \<Rightarrow> string list \<Rightarrow> string list \<times> string \<Rightarrow> string list \<times> string" where
  "pack_words max_chars [] (chunks, temp_chunk) = (chunks, temp_chunk)"
| "pack_words max_chars (word # words) (chunks, temp_chunk) =
     (if int (length temp_chunk) + int (length word) + 1 \<le> max_chars
      then pack_words max_chars words (chunks, temp_chunk @ word @ '' '')
      else pack_words max_chars words
             (if temp_chunk \<noteq> [] then chunks @ [temp_chunk] else chunks, word @ '' ''))"

text \<open>
  The text of a page as the loop rebuilds it: the marker is put back in front of
  every piece that differs (as a string) from the first piece \<open>pages[0]\<close>.
\<close>

definition page_text_of :: "string \<Rightarrow> string \<Rightarrow> string" where
  "page_text_of first page = (if page \<noteq> first then page_marker @ page else page)"

text \<open>
  The loop over the pages. The state is the list of chunks and \<open>current_chunk\<close>;
  \<open>first\<close> is \<open>pages[0]\<close>.
\<close>

fun chunk_pages :: "string \<Rightarrow> int \<Rightarrow> string list \<Rightarrow> string list \<times> string \<Rightarrow> string list \<times> string" where
  "chunk_pages first max_chars [] (chunks, current_chunk) = (chunks, current_chunk)"
| "chunk_pages first max_chars (page # pages) (chunks, current_chunk) =
     (if strip page = [] then chunk_pages first max_chars pages (chunks, current_chunk)
      else
        let page_text = page_text_of first page in
        if int (length page_text) > max_chars then
          let chunks1 = (if current_chunk \<noteq> [] then chunks @ [current_chunk] else chunks);
              (chunks2, temp_chunk) = pack_words max_chars (split_ws page_text) (chunks1, []);
              chunks3 = (if temp_chunk \<noteq> [] then chunks2 @ [temp_chunk] else chunks2)
          in chunk_pages first max_chars pages (chunks3, [])
        else if int (length current_chunk) + int (length page_text) \<le> max_chars then
          chunk_pages first max_chars pages (chunks, current_chunk @ page_text)
        else
          chunk_pages first max_chars pages (chunks @ [current_chunk], page_text))"

definition chunk_text :: "string \<Rightarrow> int \<Rightarrow> string list" where
  "chunk_text text max_chars =
     (if int (length text) \<le> max_chars then [text]
      else
        (case split_sep page_marker text of
           [] \<Rightarrow> []
         | first # rest \<Rightarrow>
             (let (chunks, current_chunk) = chunk_pages first max_chars (first # rest) ([], [])
              in if current_chunk \<noteq> [] then chunks @ [current_chunk] else chunks)))"

section \<open>JSON values and Python dictionaries\<close>

text \<open>
  The values that \<open>json.loads\<close> produces. A Python \<open>dict\<close> is an association list in
  insertion order (its keys are distinct); a float is represented by its real value.
\<close>

datatype json =
    JNull
  | JBool bool
  | JInt int
  | JFloat real
  | JStr string
  | JList "json list"
  | JDict "(string \<times> json) list"

type_synonym dict = "(string \<times> json) list"

text \<open>Python's truth value of an object (\<open>bool(v)\<close>, as tested by \<open>if v\<close>).\<close>

fun truthy :: "json \<Rightarrow> bool" where
  "truthy JNull = False"
| "truthy (JBool b) = b"
| "truthy (JInt i) = (i \<noteq> 0)"
| "truthy (JFloat r) = (r \<noteq> 0)"
| "truthy (JStr s) = (s \<noteq> [])"
| "truthy (JList xs) = (xs \<noteq> [])"
| "truthy (JDict d) = (d \<noteq> [])"

text \<open>Lists and dicts are unhashable; \<open>set(...)\<close> raises \<open>TypeError\<close> on them.\<close>

fun hashable :: "json \<Rightarrow> bool" where
  "hashable (JList xs) = False"
| "hashable (JDict d) = False"
| "hashable v = True"

text \<open>The exceptions of the model; each carries the text of \<open>str(e)\<close>.\<close>

datatype error =
    KeyError string
  | TypeError string
  | AttributeError string
  | OSError string
  | APIError string
  | JSONDecodeError string
  | RetryError string

fun str_of_error :: "error \<Rightarrow> string" where
  "str_of_error (KeyError s) = s"
| "str_of_error (TypeError s) = s"
| "str_of_error (AttributeError s) = s"
| "str_of_error (OSError s) = s"
| "str_of_error (APIError s) = s"
| "str_of_error (JSONDecodeError s) = s"
| "str_of_error (RetryError s) = s"

text \<open>Sequencing of steps that may raise: the first exception ends the computation.\<close>

definition and_then :: "error + 'a \<Rightarrow> ('a \<Rightarrow> error + 'b) \<Rightarrow> error + 'b" where
  "and_then r f = (case r of Inl e \<Rightarrow> Inl e | Inr x \<Rightarrow> f x)"

text \<open>A \<open>for\<close> loop over a list whose body updates a state and may raise.\<close>

fun for_each :: "('a \<Rightarrow> 's \<Rightarrow> error + 's) \<Rightarrow> 'a list \<Rightarrow> 's \<Rightarrow> error + 's" where
  "for_each body [] s = Inr s"
| "for_each body (x # xs) s =
     (case body x s of Inl e \<Rightarrow> Inl e | Inr s' \<Rightarrow> for_each body xs s')"

text \<open>
  \<open>d[k] = v\<close>: an existing key keeps its position and gets the new value, a new key is
  appended.
\<close>

primrec setitem :: "dict \<Rightarrow> string \<Rightarrow> json \<Rightarrow> dict" where
  "setitem [] k v = [(k, v)]"
| "setitem (p # d) k v = (if fst p = k then (k, v) # d else p # setitem d k v)"

text \<open>\<open>d.update(e)\<close>: the items of \<open>e\<close> are assigned into \<open>d\<close> one after the other.\<close>

definition dict_update :: "dict \<Rightarrow> dict \<Rightarrow> dict" where
  "dict_update d e = fold (\<lambda>(k, v) acc. setitem acc k v) e d"

text \<open>\<open>merged[key].extend(xs)\<close> and \<open>merged[key].append(x)\<close> on a list-valued entry.\<close>

definition list_extend :: "dict \<Rightarrow> string \<Rightarrow> json list \<Rightarrow> error + dict" where
  "list_extend merged key xs =
     (case map_of merged key of
        None \<Rightarrow> Inl (KeyError key)
      | Some (JList ys) \<Rightarrow> Inr (setitem merged key (JList (ys @ xs)))
      | Some _ \<Rightarrow> Inl (AttributeError ''extend''))"

definition list_append :: "dict \<Rightarrow> string \<Rightarrow> json \<Rightarrow> error + dict" where
  "list_append merged key x =
     (case map_of merged key of
        None \<Rightarrow> Inl (KeyError key)
      | Some (JList ys) \<Rightarrow> Inr (setitem merged key (JList (ys @ [x])))
      | Some _ \<Rightarrow> Inl (AttributeError ''append''))"

section \<open>The merger: \<open>LLMPDFExtractor.merge_chunk_results\<close>\<close>

definition merged_init :: dict where
  "merged_init =
     [(''insurance_provider'', JNull),
      (''plan_name'', JNull),
      (''plan_type'', JNull),
      (''document_type'', JNull),
      (''effective_date'', JNull),
      (''state_specific'', JNull),
      (''coverage_details'', JDict []),
      (''prior_authorization'', JDict []),
      (''timely_filing'', JDict []),
      (''appeals_process'', JDict []),
      (''key_requirements'', JList []),
      (''contact_information'', JDict []),
      (''additional_info'', JList [])]"

definition scalar_keys :: "string list" where
  "scalar_keys = [''insurance_provider'', ''plan_name'', ''plan_type'', ''document_type'',
                  ''effective_date'', ''state_specific'']"

definition nested_keys :: "string list" where
  "nested_keys = [''coverage_details'', ''prior_authorization'', ''timely_filing'',
                  ''appeals_process'', ''contact_information'']"

text \<open>
  The body of the loop over the top-level fields:
  \<open>if key in chunk_result and chunk_result[key] and not merged[key]: merged[key] = chunk_result[key]\<close>.
\<close>

definition merge_scalar :: "dict \<Rightarrow> string \<Rightarrow> dict \<Rightarrow> error + dict" where
  "merge_scalar chunk_result key merged =
     (case map_of chunk_result key of
        None \<Rightarrow> Inr merged
      | Some v \<Rightarrow>
          if \<not> truthy v then Inr merged
          else (case map_of merged key of
                  None \<Rightarrow> Inl (KeyError key)
                | Some mv \<Rightarrow> if \<not> truthy mv then Inr (setitem merged key v) else Inr merged))"

text \<open>
  The body of the loop over the nested objects:
  \<open>if key in chunk_result and isinstance(chunk_result[key], dict): merged[key].update(chunk_result[key])\<close>.
\<close>

definition merge_nested :: "dict \<Rightarrow> string \<Rightarrow> dict \<Rightarrow> error + dict" where
  "merge_nested chunk_result key merged =
     (case map_of chunk_result key of
        Some (JDict e) \<Rightarrow>
          (case map_of merged key of
             None \<Rightarrow> Inl (KeyError key)
           | Some (JDict d) \<Rightarrow> Inr (setitem merged key (JDict (dict_update d e)))
           | Some _ \<Rightarrow> Inl (AttributeError ''update''))
      | _ \<Rightarrow> Inr merged)"

definition merge_requirements :: "dict \<Rightarrow> dict \<Rightarrow> error + dict" where
  "merge_requirements chunk_result merged =
     (case map_of chunk_result ''key_requirements'' of
        Some (JList xs) \<Rightarrow> list_extend merged ''key_requirements'' xs
      | _ \<Rightarrow> Inr merged)"

text \<open>
  The body of the loop over \<open>chunk_result.items()\<close> that collects the fields the
  skeleton does not have.
\<close>

definition merge_additional :: "string \<times> json \<Rightarrow> dict \<Rightarrow> error + dict" where
  "merge_additional item merged =
     (case item of (key, val) \<Rightarrow>
        if map_of merged key = None \<and> truthy val then
          (case val of
             JList xs \<Rightarrow> list_extend merged ''additional_info'' xs
           | JStr s \<Rightarrow> list_append merged ''additional_info'' (JStr (key @ '': '' @ s))
           | _ \<Rightarrow> Inr merged)
        else Inr merged)"

text \<open>The body of the loop over the chunk results; an error record is skipped.\<close>

definition merge_one :: "dict \<Rightarrow> dict \<Rightarrow> error + dict" where
  "merge_one chunk_result merged =
     (if map_of chunk_result ''error'' \<noteq> None then Inr merged
      else
        and_then (for_each (merge_scalar chunk_result) scalar_keys merged) (\<lambda>m1.
        and_then (for_each (merge_nested chunk_result) nested_keys m1) (\<lambda>m2.
        and_then (merge_requirements chunk_result m2) (\<lambda>m3.
        for_each merge_additional chunk_result m3))))"

text \<open>
  \<open>list(set(v))\<close>. Building the set raises \<open>TypeError\<close> on an unhashable element. The
  order in which Python iterates over a set is unspecified (and it keeps one of several
  equal elements), so the resulting list is given by a parameter \<open>set_order\<close>, applied
  to the list the set is built from.
\<close>

fun iterate :: "json \<Rightarrow> error + json list" where
  "iterate (JList xs) = Inr xs"
| "iterate (JStr s) = Inr (map (\<lambda>c. JStr [c]) s)"
| "iterate (JDict d) = Inr (map (\<lambda>p. JStr (fst p)) d)"
| "iterate v = Inl (TypeError ''object is not iterable'')"

definition list_of_set :: "(json list \<Rightarrow> json list) \<Rightarrow> json \<Rightarrow> error + json list" where
  "list_of_set set_order v =
     and_then (iterate v) (\<lambda>xs.
       if list_all hashable xs then Inr (set_order xs)
       else Inl (TypeError ''unhashable type''))"

definition deduplicate :: "(json list \<Rightarrow> json list) \<Rightarrow> dict \<Rightarrow> error + dict" where
  "deduplicate set_order merged =
     (case map_of merged ''key_requirements'' of
        None \<Rightarrow> Inl (KeyError ''key_requirements'')
      | Some v \<Rightarrow>
          if truthy v then
            and_then (list_of_set set_order v) (\<lambda>ys.
              Inr (setitem merged ''key_requirements'' (JList ys)))
          else Inr merged)"

definition merge_chunk_results :: "(json list \<Rightarrow> json list) \<Rightarrow> dict list \<Rightarrow> error + dict" where
  "merge_chunk_results set_order chunk_results =
     and_then (for_each merge_one chunk_results merged_init) (deduplicate set_order)"

section \<open>The environment of the extractor\<close>

text \<open>
  What the extractor reaches outside itself, as functions of an environment.
  \<^item> \<open>pdf_pages\<close>: \<open>pdfplumber.open(pdf_path)\<close> raises, or gives the pages; for each page
    \<open>page.extract_text()\<close> raises or gives a text (the empty text also stands for
    \<open>None\<close>: both are falsy).
  \<^item> \<open>completions_create\<close>: \<open>self.client.chat.completions.create(...)\<close> followed by
    \<open>chat_completion.choices[0].message.content\<close>; its outcome may depend on how many
    calls were made before (a service that fails and later recovers) and on the prompt,
    which is a function of the chunk, its number and the number of chunks.
  \<^item> \<open>json_loads\<close>: \<open>json.loads\<close> on the response; the service is asked for a JSON
    object, so a successful parse is a dictionary.
  \<^item> \<open>file_size_mb\<close>: \<open>round(os.path.getsize(pdf_path) / (1024*1024), 2)\<close>, which
    raises \<open>OSError\<close> for a file that does not exist.
  \<^item> \<open>makedirs\<close> and \<open>open_w\<close>: \<open>os.makedirs(output_dir, exist_ok=True)\<close> and opening a
    file for writing, each giving the exception raised, if any.
  \<^item> \<open>model_name\<close>: \<open>self.model\<close>; \<open>set_iteration\<close>: the order in which a \<open>set\<close> is
    iterated.

  The state counts the calls made to the service and lists the files written.
\<close>

record env =
  pdf_pages :: "string \<Rightarrow> error + (error + string) list"
  completions_create :: "nat \<Rightarrow> string \<Rightarrow> int \<Rightarrow> int \<Rightarrow> error + string"
  json_loads :: "string \<Rightarrow> error + dict"
  file_size_mb :: "string \<Rightarrow> error + real"
  makedirs :: "string \<Rightarrow> error option"
  open_w :: "string \<Rightarrow> error option"
  model_name :: string
  set_iteration :: "json list \<Rightarrow> json list"

record state =
  calls :: nat
  written :: "(string \<times> json) list"

definition max_chars_per_chunk :: int where
  "max_chars_per_chunk = 20000"

section \<open>Text extraction: \<open>LLMPDFExtractor.extract_text_from_pdf\<close>\<close>

text \<open>\<open>str(n)\<close> for a natural number, \<open>sep.join(xs)\<close>, and the newline character.\<close>

fun str_of_nat :: "nat \<Rightarrow> string" where
  "str_of_nat n =
     (if n < 10 then [char_of (n + 48)]
      else str_of_nat (n div 10) @ [char_of (n mod 10 + 48)])"

fun join :: "string \<Rightarrow> string list \<Rightarrow> string" where
  "join sep [] = []"
| "join sep [x] = x"
| "join sep (x # y # ys) = x @ sep @ join sep (y # ys)"

definition newline :: char where
  "newline = CHR 0x0A"

text \<open>
  The loop over \<open>enumerate(pdf.pages, 1)\<close>: a page with a non-empty text contributes
  its marker line and its text; an exception ends the loop.
\<close>

fun collect_pages :: "nat \<Rightarrow> (error + string) list \<Rightarrow> error + string list" where
  "collect_pages page_num [] = Inr []"
| "collect_pages page_num (page # pages) =
     (case page of
        Inl e \<Rightarrow> Inl e
      | Inr text \<Rightarrow>
          and_then (collect_pages (page_num + 1) pages) (\<lambda>rest.
            Inr (if text \<noteq> []
                 then (''--- Page '' @ str_of_nat page_num @ '' ---'' @ [newline] @ text) # rest
                 else rest)))"

text \<open>Every exception is caught and turned into the empty text.\<close>

definition extract_text_from_pdf :: "env \<Rightarrow> string \<Rightarrow> string" where
  "extract_text_from_pdf env pdf_path =
     (case and_then (pdf_pages env pdf_path) (collect_pages 1) of
        Inl e \<Rightarrow> []
      | Inr text_content \<Rightarrow> join [newline, newline] text_content)"

section \<open>Chunk extraction: \<open>LLMPDFExtractor.extract_chunk_to_json\<close>\<close>

text \<open>
  The body of the method. The call to the service and the parsing of its response stand
  inside \<open>try\<close>; the handler \<open>except Exception as e\<close> returns the error marker
  \<open>{"error": str(e), "chunk": chunk_num}\<close>. The body therefore returns in every case.
\<close>

definition extract_chunk_body ::
  "env \<Rightarrow> string \<Rightarrow> int \<Rightarrow> int \<Rightarrow> state \<Rightarrow> (error + dict) \<times> state" where
  "extract_chunk_body env text_chunk chunk_num total_chunks st =
     (let st' = st\<lparr>calls := calls st + 1\<rparr> in
      case and_then (completions_create env (calls st) text_chunk chunk_num total_chunks)
             (json_loads env) of
        Inr result \<Rightarrow> (Inr result, st')
      | Inl e \<Rightarrow> (Inr [(''error'', JStr (str_of_error e)), (''chunk'', JInt chunk_num)], st'))"

text \<open>
  The decorator \<open>@retry(stop=stop_after_attempt(n), ...)\<close> of tenacity: the function is
  called; when it returns, its value is returned; when it raises, it is called again
  unless this was attempt \<open>n\<close>, in which case \<open>RetryError\<close> is raised. \<open>retry k\<close> allows
  \<open>k\<close> further attempts after the next one. The waiting between attempts changes no
  value and is left out.
\<close>

fun retry :: "nat \<Rightarrow> ('s \<Rightarrow> (error + 'a) \<times> 's) \<Rightarrow> 's \<Rightarrow> (error + 'a) \<times> 's" where
  "retry 0 f s =
     (case f s of
        (Inr v, s') \<Rightarrow> (Inr v, s')
      | (Inl e, s') \<Rightarrow> (Inl (RetryError (str_of_error e)), s'))"
| "retry (Suc k) f s =
     (case f s of
        (Inr v, s') \<Rightarrow> (Inr v, s')
      | (Inl e, s') \<Rightarrow> retry k f s')"

definition stop_after_attempt :: "nat \<Rightarrow> ('s \<Rightarrow> (error + 'a) \<times> 's) \<Rightarrow> 's \<Rightarrow> (error + 'a) \<times> 's" where
  "stop_after_attempt n = retry (n - 1)"

definition extract_chunk_to_json ::
  "env \<Rightarrow> string \<Rightarrow> int \<Rightarrow> int \<Rightarrow> state \<Rightarrow> (error + dict) \<times> state" where
  "extract_chunk_to_json env text_chunk chunk_num total_chunks =
     stop_after_attempt 3 (extract_chunk_body env text_chunk chunk_num total_chunks)"

section \<open>Document extraction: \<open>LLMPDFExtractor.extract_to_json\<close>\<close>

text \<open>\<open>os.path.basename\<close> on POSIX paths: what follows the last \<open>/\<close>.\<close>

definition basename :: "string \<Rightarrow> string" where
  "basename p = rev (takeWhile (\<lambda>c. c \<noteq> CHR ''/'') (rev p))"

text \<open>The loop over \<open>enumerate(chunks, 1)\<close>, collecting \<open>chunk_results\<close>.\<close>

fun extract_chunks ::
  "env \<Rightarrow> int \<Rightarrow> int \<Rightarrow> string list \<Rightarrow> state \<Rightarrow> (error + dict list) \<times> state" where
  "extract_chunks env total_chunks i [] st = (Inr [], st)"
| "extract_chunks env total_chunks i (chunk # chunks) st =
     (case extract_chunk_to_json env chunk i total_chunks st of
        (Inl e, st') \<Rightarrow> (Inl e, st')
      | (Inr chunk_result, st') \<Rightarrow>
          (case extract_chunks env total_chunks (i + 1) chunks st' of
             (Inl e, st'') \<Rightarrow> (Inl e, st'')
           | (Inr rest, st'') \<Rightarrow> (Inr (chunk_result # rest), st'')))"

definition add_metadata :: "env \<Rightarrow> string \<Rightarrow> string \<Rightarrow> dict \<Rightarrow> error + dict" where
  "add_metadata env pdf_path pdf_text result =
     and_then (file_size_mb env pdf_path) (\<lambda>size_mb.
       Inr (setitem result ''_metadata''
         (JDict [(''source_file'', JStr (basename pdf_path)),
                 (''file_size_mb'', JFloat size_mb),
                 (''model_used'', JStr (model_name env)),
                 (''extraction_method'',
                    JStr (if int (length pdf_text) > max_chars_per_chunk
                          then ''groq_llm_chunked'' else ''groq_llm''))])))"

text \<open>
  A document whose text is empty (also: whose file could not be read) gives the
  dictionary \<open>{"error": ..., "file": pdf_path}\<close> as the value of the call; nothing is
  raised.
\<close>

definition extract_to_json :: "env \<Rightarrow> string \<Rightarrow> state \<Rightarrow> (error + dict) \<times> state" where
  "extract_to_json env pdf_path st =
     (let pdf_text = extract_text_from_pdf env pdf_path in
      if pdf_text = [] then
        (Inr [(''error'', JStr ''Failed to extract text from PDF''), (''file'', JStr pdf_path)], st)
      else
        (case (if int (length pdf_text) \<le> max_chars_per_chunk then
                 extract_chunk_to_json env pdf_text 1 1 st
               else
                 (let chunks = chunk_text pdf_text max_chars_per_chunk in
                  case extract_chunks env (int (length chunks)) 1 chunks st of
                    (Inl e, st') \<Rightarrow> (Inl e, st')
                  | (Inr chunk_results, st') \<Rightarrow>
                      (merge_chunk_results (set_iteration env) chunk_results, st'))) of
           (Inl e, st') \<Rightarrow> (Inl e, st')
         | (Inr result, st') \<Rightarrow> (add_metadata env pdf_path pdf_text result, st')))"

section \<open>Batch processing: \<open>LLMPDFExtractor.batch_process\<close>\<close>

text \<open>
  \<open>os.path.splitext(p)[0]\<close>: the path without its extension. The extension starts at the
  last dot of the last component, provided a character other than a dot precedes it
  there. \<open>os.path.join(a, b)\<close> for two POSIX paths.
\<close>

definition splitext_root :: "string \<Rightarrow> string" where
  "splitext_root p =
     (let name = basename p;
          stem = rev (drop 1 (dropWhile (\<lambda>c. c \<noteq> CHR ''.'') (rev name)))
      in if CHR ''.'' \<in> set name \<and> filter (\<lambda>c. c \<noteq> CHR ''.'') stem \<noteq> []
         then take (length p - length name) p @ stem
         else p)"

definition path_join :: "string \<Rightarrow> string \<Rightarrow> string" where
  "path_join a b =
     (if b \<noteq> [] \<and> hd b = CHR ''/'' then b
      else if a = [] \<or> last a = CHR ''/'' then a @ b
      else a @ ''/'' @ b)"

text \<open>
  The dictionary \<open>results\<close>, with its four fixed keys, and the two kinds of entries of
  its list \<open>files\<close>.
\<close>

record results =
  total :: int
  successful :: int
  failed :: int
  files :: "dict list"

definition success_entry :: "string \<Rightarrow> string \<Rightarrow> dict" where
  "success_entry pdf_path output_path =
     [(''input'', JStr pdf_path), (''output'', JStr output_path), (''status'', JStr ''success'')]"

definition failed_entry :: "string \<Rightarrow> error \<Rightarrow> dict" where
  "failed_entry pdf_path e =
     [(''input'', JStr pdf_path), (''output'', JNull), (''status'', JStr ''failed''),
      (''error'', JStr (str_of_error e))]"

definition json_of_results :: "results \<Rightarrow> json" where
  "json_of_results r =
     JDict [(''total'', JInt (total r)), (''successful'', JInt (successful r)),
            (''failed'', JInt (failed r)), (''files'', JList (map JDict (files r)))]"

text \<open>
  The \<open>try\<close> block of the loop body: extract, compute the output path, write the file.
  It gives the output path, or the exception raised.
\<close>

definition process_pdf :: "env \<Rightarrow> string \<Rightarrow> string \<Rightarrow> state \<Rightarrow> (error + string) \<times> state" where
  "process_pdf env output_dir pdf_path st =
     (case extract_to_json env pdf_path st of
        (Inl e, st') \<Rightarrow> (Inl e, st')
      | (Inr json_data, st') \<Rightarrow>
          (let filename = splitext_root (basename pdf_path);
               output_path = path_join output_dir (filename @ ''.json'')
           in case open_w env output_path of
                Some e \<Rightarrow> (Inl e, st')
              | None \<Rightarrow>
                  (Inr output_path,
                   st'\<lparr>written := written st' @ [(output_path, JDict json_data)]\<rparr>)))"

text \<open>The loop body: the \<open>try\<close> block, and the handler that records a failure.\<close>

definition batch_step ::
  "env \<Rightarrow> string \<Rightarrow> string \<Rightarrow> results \<times> state \<Rightarrow> results \<times> state" where
  "batch_step env output_dir pdf_path rs =
     (case process_pdf env output_dir pdf_path (snd rs) of
        (Inr output_path, st') \<Rightarrow>
          ((fst rs)\<lparr>successful := successful (fst rs) + 1,
                    files := files (fst rs) @ [success_entry pdf_path output_path]\<rparr>, st')
      | (Inl e, st') \<Rightarrow>
          ((fst rs)\<lparr>failed := failed (fst rs) + 1,
                    files := files (fst rs) @ [failed_entry pdf_path e]\<rparr>, st'))"

definition batch_process ::
  "env \<Rightarrow> string list \<Rightarrow> string \<Rightarrow> state \<Rightarrow> (error + results) \<times> state" where
  "batch_process env pdf_paths output_dir st =
     (case makedirs env output_dir of
        Some e \<Rightarrow> (Inl e, st)
      | None \<Rightarrow>
          (let rs = fold (batch_step env output_dir) pdf_paths
                      (\<lparr>total = int (length pdf_paths), successful = 0, failed = 0, files = []\<rparr>,
                       st);
               summary_path = path_join output_dir ''_batch_summary.json''
           in case open_w env summary_path of
                Some e \<Rightarrow> (Inl e, snd rs)
              | None \<Rightarrow>
                  (Inr (fst rs),
                   (snd rs)\<lparr>written := written (snd rs)
                                         @ [(summary_path, json_of_results (fst rs))]\<rparr>)))"

section \<open>Auxiliary notions for the chunker's properties\<close>





section \<open>Auxiliary notions for the merger's properties\<close>

text \<open>
  What one pass of the scalar loop and of the nested-object loop does to the value
  stored under one key of \<open>merged\<close>, for a chunk result \<open>r\<close>.
\<close>

definition scalar_pick :: "dict \<Rightarrow> string \<Rightarrow> json \<Rightarrow> json" where
  "scalar_pick r key old =
     (case map_of r key of
        Some v \<Rightarrow> if truthy v \<and> \<not> truthy old then v else old
      | None \<Rightarrow> old)"

definition nested_pick :: "dict \<Rightarrow> string \<Rightarrow> json \<Rightarrow> json" where
  "nested_pick r key old =
     (case map_of r key of
        Some (JDict e) \<Rightarrow> (case old of JDict d \<Rightarrow> JDict (dict_update d e) | _ \<Rightarrow> old)
      | _ \<Rightarrow> old)"

text \<open>The same, with the test for the error marker that guards the loop body.\<close>

definition scalar_step :: "dict \<Rightarrow> string \<Rightarrow> json \<Rightarrow> json" where
  "scalar_step r k old = (if map_of r ''error'' \<noteq> None then old else scalar_pick r k old)"

definition nested_step :: "dict \<Rightarrow> string \<Rightarrow> json \<Rightarrow> json" where
  "nested_step r k old = (if map_of r ''error'' \<noteq> None then old else nested_pick r k old)"

text \<open>
  The shape of \<open>merged\<close> that the loop preserves: the thirteen keys of the skeleton in
  order, dictionaries under the nested keys and lists under the two list keys.
\<close>

definition wf_merged :: "dict \<Rightarrow> bool" where
  "wf_merged m \<longleftrightarrow>
     map fst m = map fst merged_init
     \<and> (\<forall>k\<in>set nested_keys. \<exists>d. map_of m k = Some (JDict d))
     \<and> (\<exists>xs. map_of m ''key_requirements'' = Some (JList xs))
     \<and> (\<exists>xs. map_of m ''additional_info'' = Some (JList xs))"

text \<open>
  The value a chunk result reports for a scalar key: the value stored under the key
  when the result carries no error marker and the value is truthy. The first reported
  value of a sequence of chunk results is \<open>None\<close> of Python when there is none.
\<close>

definition reported :: "string \<Rightarrow> dict \<Rightarrow> json option" where
  "reported k r =
     (if map_of r ''error'' \<noteq> None then None
      else (case map_of r k of
              Some v \<Rightarrow> if truthy v then Some v else None
            | None \<Rightarrow> None))"

definition first_reported :: "string \<Rightarrow> dict list \<Rightarrow> json" where
  "first_reported k rs = (case List.map_filter (reported k) rs of [] \<Rightarrow> JNull | v # _ \<Rightarrow> v)"

text \<open>
  The items a chunk result contributes to a nested key (those of its dictionary under
  that key, when it carries no error marker), the items of a whole sequence of chunk
  results in order, and the last binding of a sub-key among them.
\<close>

definition nested_items :: "string \<Rightarrow> dict \<Rightarrow> dict" where
  "nested_items k r =
     (if map_of r ''error'' \<noteq> None then []
      else (case map_of r k of Some (JDict e) \<Rightarrow> e | _ \<Rightarrow> []))"

definition all_nested_items :: "string \<Rightarrow> dict list \<Rightarrow> dict" where
  "all_nested_items k rs = concat (map (nested_items k) rs)"

definition last_binding :: "string \<Rightarrow> dict \<Rightarrow> json option" where
  "last_binding sub items = map_of (rev items) sub"

text \<open>
  The two rules as the specification words them, for comparison with the code: the
  value of the earliest chunk result that reports a value other than \<open>None\<close>, and the
  last binding of a sub-key whose value is not \<open>None\<close>.
\<close>

definition first_non_null :: "string \<Rightarrow> dict list \<Rightarrow> json" where
  "first_non_null k rs =
     (case List.map_filter
             (\<lambda>r. if map_of r ''error'' \<noteq> None then None
                  else (case map_of r k of
                          Some v \<Rightarrow> if v \<noteq> JNull then Some v else None
                        | None \<Rightarrow> None)) rs
      of [] \<Rightarrow> JNull | v # _ \<Rightarrow> v)"

definition last_non_null :: "string \<Rightarrow> dict \<Rightarrow> json option" where
  "last_non_null sub items = map_of (rev (filter (\<lambda>p. snd p \<noteq> JNull) items)) sub"

text \<open>
  The items a chunk result contributes to \<open>key_requirements\<close> (those of its list under
  that key, when it carries no error marker), and the items of a whole sequence.
\<close>

definition requirements :: "dict \<Rightarrow> json list" where
  "requirements r =
     (if map_of r ''error'' \<noteq> None then []
      else (case map_of r ''key_requirements'' of Some (JList xs) \<Rightarrow> xs | _ \<Rightarrow> []))"

definition all_requirements :: "dict list \<Rightarrow> json list" where
  "all_requirements rs = concat (map requirements rs)"

section \<open>Two environments for concrete runs\<close>

text \<open>
  A response of the service, and its parse.
\<close>

definition response_text :: string where
  \<open>response_text = ''{"plan_name": "X"}''\<close>

definition parse_response :: "string \<Rightarrow> error + dict" where
  "parse_response s =
     (if s = response_text then Inr [(''plan_name'', JStr ''X'')]
      else Inl (JSONDecodeError ''Expecting value''))"

text \<open>
  \<open>flaky\<close>: a service whose first two calls fail with a rate-limit error and whose
  later calls succeed.
\<close>

definition flaky :: env where
  "flaky =
     \<lparr>pdf_pages = (\<lambda>p. Inr [Inr ''Plan text'']),
      completions_create =
        (\<lambda>n text_chunk chunk_num total_chunks.
           if n < 2 then Inl (APIError ''rate limit exceeded'') else Inr response_text),
      json_loads = parse_response,
      file_size_mb = (\<lambda>p. Inr 1),
      makedirs = (\<lambda>d. None),
      open_w = (\<lambda>p. None),
      model_name = ''llama-3.3-70b-versatile'',
      set_iteration = remdups\<rparr>"

text \<open>
  \<open>shelf\<close>: three documents, of which \<open>docs/b.pdf\<close> cannot be opened; the service
  always answers.
\<close>

definition shelf :: env where
  "shelf =
     \<lparr>pdf_pages =
        (\<lambda>p. if p = ''docs/b.pdf'' then Inl (OSError ''No such file or directory'')
             else Inr [Inr ''Plan text'']),
      completions_create = (\<lambda>n text_chunk chunk_num total_chunks. Inr response_text),
      json_loads = parse_response,
      file_size_mb =
        (\<lambda>p. if p = ''docs/b.pdf'' then Inl (OSError ''No such file or directory'')
             else Inr 1),
      makedirs = (\<lambda>d. None),
      open_w = (\<lambda>p. None),
      model_name = ''llama-3.3-70b-versatile'',
      set_iteration = remdups\<rparr>"

text \<open>
  The body of the chunk extraction without its \<open>try\<close> block: an exception of the
  service or of the parser is raised to the caller.
\<close>

definition raising_body ::
  "env \<Rightarrow> string \<Rightarrow> int \<Rightarrow> int \<Rightarrow> state \<Rightarrow> (error + dict) \<times> state" where
  "raising_body env text_chunk chunk_num total_chunks st =
     (and_then (completions_create env (calls st) text_chunk chunk_num total_chunks)
        (json_loads env),
      st\<lparr>calls := calls st + 1\<rparr>)"

section \<open>Lemmas about splitting strings\<close>




lemma split_ws_word:
  "w \<in> set (split_ws s) \<Longrightarrow> w \<noteq> [] \<and> (\<forall>c\<in>set w. \<not> isspace c) \<and> sublist w s"
proof (induction s rule: split_ws.induct)
  case 1
  then show ?case by simp
next
  case (2 c cs)
  show ?case
  proof (cases "isspace c")
    case True
    with 2(3) have "w \<in> set (split_ws cs)" by simp
    from 2(1)[OF True this] show ?thesis by (simp add: sublist_Cons_right)
  next
    case False
    let ?tw = "takeWhile (\<lambda>x. \<not> isspace x) cs"
    let ?dw = "dropWhile (\<lambda>x. \<not> isspace x) cs"
    from 2(3) False have "w = c # ?tw \<or> w \<in> set (split_ws ?dw)" by simp
    then show ?thesis
    proof
      assume w: "w = c # ?tw"
      have "prefix w (c # cs)" unfolding w by (simp add: takeWhile_is_prefix)
      then have "sublist w (c # cs)" by (rule prefix_imp_sublist)
      moreover have "\<forall>x\<in>set w. \<not> isspace x" unfolding w using False by (auto dest: set_takeWhileD)
      ultimately show ?thesis using w by simp
    next
      assume "w \<in> set (split_ws ?dw)"
      with 2(2)[OF False] have a: "w \<noteq> []" "\<forall>c\<in>set w. \<not> isspace c" "sublist w ?dw" by auto
      have "suffix ?dw (c # cs)" by (simp add: suffix_dropWhile suffix_ConsI)
      then have "sublist ?dw (c # cs)" by (rule suffix_imp_sublist)
      with a(3) have "sublist w (c # cs)" by (rule sublist_order.order_trans)
      with a show ?thesis by simp
    qed
  qed
qed

lemma split_ws_covers:
  "s = ps @ u @ ss \<Longrightarrow> u \<noteq> [] \<Longrightarrow> \<forall>c\<in>set u. \<not> isspace c \<Longrightarrow>
   \<exists>w\<in>set (split_ws s). length u \<le> length w"
proof (induction s arbitrary: ps rule: split_ws.induct)
  case 1
  then show ?case by simp
next
  case (2 c cs)
  show ?case
  proof (cases "isspace c")
    case True
    have "ps \<noteq> []"
    proof
      assume "ps = []"
      with 2(3,4) have "c = hd u" "hd u \<in> set u" by (cases u; simp)+
      with 2(5) True show False by simp
    qed
    then obtain ps' where ps: "ps = c # ps'" "cs = ps' @ u @ ss" using 2(3) by (cases ps) auto
    from 2(1)[OF True ps(2) 2(4) 2(5)] True show ?thesis by simp
  next
    case False
    let ?P = "\<lambda>x. \<not> isspace x"
    show ?thesis
    proof (cases ps)
      case Nil
      with 2(3,4) obtain u' where u: "u = c # u'" "cs = u' @ ss" by (cases u) auto
      have "takeWhile ?P cs = u' @ takeWhile ?P ss"
        unfolding u(2) using 2(5) u(1) by (intro takeWhile_append2) simp
      then show ?thesis using False u by simp
    next
      case (Cons a ps')
      with 2(3) have cs: "cs = ps' @ u @ ss" by simp
      show ?thesis
      proof (cases "\<forall>x\<in>set ps'. ?P x")
        case True
        have "takeWhile ?P cs = ps' @ takeWhile ?P (u @ ss)"
          unfolding cs using True by (intro takeWhile_append2) simp
        also have "takeWhile ?P (u @ ss) = u @ takeWhile ?P ss"
          using 2(5) by (intro takeWhile_append2) simp
        finally show ?thesis using False by simp
      next
        case nall: False
        then obtain x where "x \<in> set ps'" "\<not> ?P x" by blast
        then have "dropWhile ?P cs = dropWhile ?P ps' @ u @ ss"
          unfolding cs by (intro dropWhile_append1) 
        from 2(2)[OF False this 2(4) 2(5)] False show ?thesis by auto
      qed
    qed
  qed
qed

lemma split_ws_sublist_bound:
  assumes "sublist s t" and "w \<in> set (split_ws s)"
  shows "\<exists>w'\<in>set (split_ws t). length w \<le> length w'"
proof -
  from split_ws_word[OF assms(2)] have w: "w \<noteq> []" "\<forall>c\<in>set w. \<not> isspace c" "sublist w s" by auto
  from w(3) assms(1) have "sublist w t" by (rule sublist_order.order_trans)
  then obtain ps ss where "t = ps @ w @ ss" by (auto simp: sublist_def)
  from split_ws_covers[OF this w(1) w(2)] show ?thesis .
qed

lemma split_sep_nonempty: "split_sep sep s \<noteq> []"
  by (induction sep s rule: split_sep.induct) (auto split: list.splits)

lemma split_sep_concat:
  "sep \<noteq> [] \<Longrightarrow> split_sep sep s = p # ps \<Longrightarrow> s = p @ concat (map ((@) sep) ps)"
proof (induction sep s arbitrary: p ps rule: split_sep.induct)
  case (1 sep)
  then show ?case by simp
next
  case (2 sep c cs)
  show ?case
  proof (cases "prefix sep (c # cs)")
    case True
    then obtain r where r: "c # cs = sep @ r" by (auto simp: prefix_def)
    with 2(3) have "cs = tl sep @ r" by (cases sep) auto
    then have d: "drop (length sep - 1) cs = r" by simp
    obtain q qs where qs: "split_sep sep r = q # qs"
      using split_sep_nonempty by (cases "split_sep sep r") auto
    have "r = q @ concat (map ((@) sep) qs)" using 2(1)[OF True 2(3)] d qs by simp
    moreover have "split_sep sep (c # cs) = [] # q # qs" using True d qs by simp
    with 2(4) have "p = []" "ps = q # qs" by simp_all
    ultimately show ?thesis using r by simp
  next
    case False
    obtain q qs where qs: "split_sep sep cs = q # qs"
      using split_sep_nonempty by (cases "split_sep sep cs") auto
    have "cs = q @ concat (map ((@) sep) qs)" using 2(2)[OF False 2(3) qs] .
    moreover have "split_sep sep (c # cs) = (c # q) # qs" using False qs by simp
    with 2(4) have "p = c # q" "ps = qs" by simp_all
    ultimately show ?thesis by simp
  qed
qed

lemma sublist_concat_member: "x \<in> set xs \<Longrightarrow> sublist x (concat xs)"
proof -
  assume "x \<in> set xs"
  then obtain ys zs where "xs = ys @ x # zs" by (auto dest: split_list)
  then have "concat xs = concat ys @ x @ concat zs" by simp
  then show ?thesis unfolding sublist_def by blast
qed

lemma page_text_sublist:
  assumes sp: "split_sep page_marker text = first # rest" and p: "p \<in> set (first # rest)"
  shows "sublist (page_text_of first p) text"
proof -
  have t: "text = first @ concat (map ((@) page_marker) rest)"
    using split_sep_concat[OF _ sp] by (simp add: page_marker_def)
  show ?thesis
  proof (cases "p = first")
    case True
    have "prefix first text" using t by (rule prefixI)
    then have "sublist first text" by (rule prefix_imp_sublist)
    then show ?thesis using True by (simp add: page_text_of_def)
  next
    case False
    with p have "page_marker @ p \<in> set (map ((@) page_marker) rest)" by auto
    then have "sublist (page_marker @ p) (concat (map ((@) page_marker) rest))"
      by (rule sublist_concat_member)
    then obtain a b where "concat (map ((@) page_marker) rest) = a @ (page_marker @ p) @ b"
      unfolding sublist_def by blast
    with t have "text = (first @ a) @ (page_marker @ p) @ b" by simp
    then have "sublist (page_marker @ p) text" unfolding sublist_def by blast
    then show ?thesis using False by (simp add: page_text_of_def)
  qed
qed

section \<open>Invariants of the chunker's loops\<close>

lemma pack_words_bound:
  "\<forall>w\<in>set words. int (length w) + 1 \<le> m \<Longrightarrow> \<forall>c\<in>set chunks. int (length c) \<le> m \<Longrightarrow>
   temp = [] \<or> int (length temp) \<le> m \<Longrightarrow> pack_words m words (chunks, temp) = (chunks', temp') \<Longrightarrow>
   (\<forall>c\<in>set chunks'. int (length c) \<le> m) \<and> (temp' = [] \<or> int (length temp') \<le> m)"
proof (induction words arbitrary: chunks temp)
  case Nil
  then show ?case by simp
next
  case (Cons w ws)
  have ws: "\<forall>w\<in>set ws. int (length w) + 1 \<le> m" and w: "int (length w) + 1 \<le> m"
    using Cons.prems(1) by simp_all
  show ?case
  proof (cases "int (length temp) + int (length w) + 1 \<le> m")
    case True
    with Cons.prems(4) have eq: "pack_words m ws (chunks, temp @ w @ '' '') = (chunks', temp')"
      by simp
    have len: "temp @ w @ '' '' = [] \<or> int (length (temp @ w @ '' '')) \<le> m" using True by simp
    show ?thesis by (rule Cons.IH[OF ws Cons.prems(2) len eq])
  next
    case False
    let ?cs = "if temp \<noteq> [] then chunks @ [temp] else chunks"
    from False Cons.prems(4) have eq: "pack_words m ws (?cs, w @ '' '') = (chunks', temp')"
      by simp
    have len: "w @ '' '' = [] \<or> int (length (w @ '' '')) \<le> m" using w by simp
    have cs: "\<forall>c\<in>set ?cs. int (length c) \<le> m" using Cons.prems(2,3) by auto
    show ?thesis by (rule Cons.IH[OF ws cs len eq])
  qed
qed


lemma chunk_pages_bound:
  "\<forall>p\<in>set pages. \<forall>w\<in>set (split_ws (page_text_of first p)). int (length w) + 1 \<le> m \<Longrightarrow>
   \<forall>c\<in>set chunks. int (length c) \<le> m \<Longrightarrow> cur = [] \<or> int (length cur) \<le> m \<Longrightarrow>
   chunk_pages first m pages (chunks, cur) = (chunks', cur') \<Longrightarrow>
   (\<forall>c\<in>set chunks'. int (length c) \<le> m) \<and> (cur' = [] \<or> int (length cur') \<le> m)"
proof (induction pages arbitrary: chunks cur)
  case Nil
  then show ?case by simp
next
  case (Cons page pages)
  have ps: "\<forall>p\<in>set pages. \<forall>w\<in>set (split_ws (page_text_of first p)). int (length w) + 1 \<le> m"
    and pw: "\<forall>w\<in>set (split_ws (page_text_of first page)). int (length w) + 1 \<le> m"
    using Cons.prems(1) by simp_all
  let ?pt = "page_text_of first page"
  consider (blank) "strip page = []"
    | (big) "strip page \<noteq> []" "int (length ?pt) > m"
    | (fits) "strip page \<noteq> []" "\<not> int (length ?pt) > m" "int (length cur) + int (length ?pt) \<le> m"
    | (seal) "strip page \<noteq> []" "\<not> int (length ?pt) > m" "\<not> int (length cur) + int (length ?pt) \<le> m"
    by blast
  then show ?case
  proof cases
    case blank
    with Cons.prems(4) have eq: "chunk_pages first m pages (chunks, cur) = (chunks', cur')" by simp
    show ?thesis by (rule Cons.IH[OF ps Cons.prems(2,3) eq])
  next
    case big
    let ?c1 = "if cur \<noteq> [] then chunks @ [cur] else chunks"
    obtain c2 temp where pk: "pack_words m (split_ws ?pt) (?c1, []) = (c2, temp)"
      by (cases "pack_words m (split_ws ?pt) (?c1, [])") auto
    let ?c3 = "if temp \<noteq> [] then c2 @ [temp] else c2"
    from big pk Cons.prems(4) have eq: "chunk_pages first m pages (?c3, []) = (chunks', cur')"
      by (simp add: Let_def)
    have c1: "\<forall>c\<in>set ?c1. int (length c) \<le> m" using Cons.prems(2,3) by auto
    have "(\<forall>c\<in>set c2. int (length c) \<le> m) \<and> (temp = [] \<or> int (length temp) \<le> m)"
      by (rule pack_words_bound[OF pw c1 _ pk]) simp
    then have c3: "\<forall>c\<in>set ?c3. int (length c) \<le> m" by auto
    show ?thesis by (rule Cons.IH[OF ps c3 _ eq]) simp
  next
    case fits
    with Cons.prems(4) have eq: "chunk_pages first m pages (chunks, cur @ ?pt) = (chunks', cur')"
      by (simp add: Let_def)
    have len: "cur @ ?pt = [] \<or> int (length (cur @ ?pt)) \<le> m" using fits(3) by simp
    show ?thesis by (rule Cons.IH[OF ps Cons.prems(2) len eq])
  next
    case seal
    with Cons.prems(4) have eq: "chunk_pages first m pages (chunks @ [cur], ?pt) = (chunks', cur')"
      by (simp add: Let_def)
    have "cur \<noteq> []" using seal(2,3) by auto
    with Cons.prems(2,3) have cs: "\<forall>c\<in>set (chunks @ [cur]). int (length c) \<le> m" by auto
    have len: "?pt = [] \<or> int (length ?pt) \<le> m" using seal(2) by simp
    show ?thesis by (rule Cons.IH[OF ps cs len eq])
  qed
qed











section \<open>The merger: effect of the loop on each field\<close>

lemma map_of_setitem: "map_of (setitem d k v) = (map_of d)(k \<mapsto> v)"
  by (induction d) (auto simp: fun_eq_iff)

lemma keys_setitem: "map_of d k = Some old \<Longrightarrow> map fst (setitem d k v) = map fst d"
  by (induction d) (auto split: if_splits)

lemma and_then_Inr [simp]: "and_then (Inr x) f = f x"
  by (simp add: and_then_def)

lemma and_then_Inl [simp]: "and_then (Inl e) f = Inl e"
  by (simp add: and_then_def)

lemma merge_scalar_effect:
  assumes "map_of m key = Some old"
  shows "\<exists>m'. merge_scalar r key m = Inr m' \<and> map fst m' = map fst m
           \<and> map_of m' = (map_of m)(key \<mapsto> scalar_pick r key old)"
proof (cases "map_of r key")
  case None
  with assms show ?thesis
    by (simp add: merge_scalar_def scalar_pick_def map_upd_triv)
next
  case (Some v)
  show ?thesis
  proof (cases "truthy v \<and> \<not> truthy old")
    case True
    with Some assms show ?thesis
      by (simp add: merge_scalar_def scalar_pick_def map_of_setitem keys_setitem)
  next
    case False
    with Some assms show ?thesis
      by (auto simp: merge_scalar_def scalar_pick_def map_upd_triv)
  qed
qed

lemma for_each_scalar:
  "distinct keys \<Longrightarrow> \<forall>k\<in>set keys. map_of m k \<noteq> None \<Longrightarrow>
   \<exists>m'. for_each (merge_scalar r) keys m = Inr m' \<and> map fst m' = map fst m
     \<and> (\<forall>k. map_of m' k =
           (if k \<in> set keys then map_option (scalar_pick r k) (map_of m k) else map_of m k))"
proof (induction keys arbitrary: m)
  case Nil
  then show ?case by simp
next
  case (Cons key keys)
  from Cons.prems(2) obtain old where old: "map_of m key = Some old" by auto
  from merge_scalar_effect[OF old, of r] obtain m1 where
    m1: "merge_scalar r key m = Inr m1" "map fst m1 = map fst m"
        "map_of m1 = (map_of m)(key \<mapsto> scalar_pick r key old)" by blast
  have d: "distinct keys" and nk: "key \<notin> set keys" using Cons.prems(1) by simp_all
  have dom: "\<forall>k\<in>set keys. map_of m1 k \<noteq> None" using Cons.prems(2) m1(3) by simp
  from Cons.IH[OF d dom] obtain m' where
    m': "for_each (merge_scalar r) keys m1 = Inr m'" "map fst m' = map fst m1"
        "\<forall>k. map_of m' k =
           (if k \<in> set keys then map_option (scalar_pick r k) (map_of m1 k) else map_of m1 k)"
    by blast
  have "for_each (merge_scalar r) (key # keys) m = Inr m'" using m1(1) m'(1) by simp
  moreover have "map fst m' = map fst m" using m1(2) m'(2) by simp
  moreover have "\<forall>k. map_of m' k =
      (if k \<in> set (key # keys) then map_option (scalar_pick r k) (map_of m k) else map_of m k)"
    using m'(3) m1(3) nk old by auto
  ultimately show ?case by blast
qed

lemma merge_nested_effect:
  assumes "map_of m key = Some (JDict d)"
  shows "\<exists>m'. merge_nested r key m = Inr m' \<and> map fst m' = map fst m
           \<and> map_of m' = (map_of m)(key \<mapsto> nested_pick r key (JDict d))"
proof (cases "\<exists>e. map_of r key = Some (JDict e)")
  case True
  then obtain e where "map_of r key = Some (JDict e)" by blast
  with assms show ?thesis
    by (simp add: merge_nested_def nested_pick_def map_of_setitem keys_setitem)
next
  case False
  then have "merge_nested r key m = Inr m" "nested_pick r key (JDict d) = JDict d"
    by (auto simp: merge_nested_def nested_pick_def split: option.splits json.splits)
  with assms show ?thesis by (simp add: map_upd_triv)
qed

lemma nested_pick_dict: "\<exists>d'. nested_pick r key (JDict d) = JDict d'"
  by (simp add: nested_pick_def split: option.splits json.splits)

lemma for_each_nested:
  "distinct keys \<Longrightarrow> \<forall>k\<in>set keys. \<exists>d. map_of m k = Some (JDict d) \<Longrightarrow>
   \<exists>m'. for_each (merge_nested r) keys m = Inr m' \<and> map fst m' = map fst m
     \<and> (\<forall>k. map_of m' k =
           (if k \<in> set keys then map_option (nested_pick r k) (map_of m k) else map_of m k))"
proof (induction keys arbitrary: m)
  case Nil
  then show ?case by simp
next
  case (Cons key keys)
  from Cons.prems(2) obtain d where old: "map_of m key = Some (JDict d)" by auto
  from merge_nested_effect[OF old, of r] obtain m1 where
    m1: "merge_nested r key m = Inr m1" "map fst m1 = map fst m"
        "map_of m1 = (map_of m)(key \<mapsto> nested_pick r key (JDict d))" by blast
  have dk: "distinct keys" and nk: "key \<notin> set keys" using Cons.prems(1) by simp_all
  have dom: "\<forall>k\<in>set keys. \<exists>d. map_of m1 k = Some (JDict d)"
    using Cons.prems(2) m1(3) nk by auto
  from Cons.IH[OF dk dom] obtain m' where
    m': "for_each (merge_nested r) keys m1 = Inr m'" "map fst m' = map fst m1"
        "\<forall>k. map_of m' k =
           (if k \<in> set keys then map_option (nested_pick r k) (map_of m1 k) else map_of m1 k)"
    by blast
  have "for_each (merge_nested r) (key # keys) m = Inr m'" using m1(1) m'(1) by simp
  moreover have "map fst m' = map fst m" using m1(2) m'(2) by simp
  moreover have "\<forall>k. map_of m' k =
      (if k \<in> set (key # keys) then map_option (nested_pick r k) (map_of m k) else map_of m k)"
    using m'(3) m1(3) nk old by auto
  ultimately show ?case by blast
qed

lemma list_extend_effect:
  assumes "map_of m key = Some (JList ys)"
  shows "\<exists>m'. list_extend m key xs = Inr m' \<and> map fst m' = map fst m
           \<and> map_of m' = (map_of m)(key \<mapsto> JList (ys @ xs))"
  using assms by (simp add: list_extend_def map_of_setitem keys_setitem)

lemma list_append_effect:
  assumes "map_of m key = Some (JList ys)"
  shows "\<exists>m'. list_append m key x = Inr m' \<and> map fst m' = map fst m
           \<and> map_of m' = (map_of m)(key \<mapsto> JList (ys @ [x]))"
  using assms by (simp add: list_append_def map_of_setitem keys_setitem)

lemma merge_requirements_effect:
  assumes "map_of m ''key_requirements'' = Some (JList ys)"
  shows "\<exists>m' zs. merge_requirements r m = Inr m' \<and> map fst m' = map fst m
           \<and> map_of m' = (map_of m)(''key_requirements'' \<mapsto> JList zs)"
proof (cases "\<exists>xs. map_of r ''key_requirements'' = Some (JList xs)")
  case True
  then obtain xs where xs: "map_of r ''key_requirements'' = Some (JList xs)" by blast
  from list_extend_effect[OF assms, of xs] xs show ?thesis
    by (auto simp: merge_requirements_def)
next
  case False
  then have "merge_requirements r m = Inr m"
    by (auto simp: merge_requirements_def split: option.splits json.splits)
  moreover have "map_of m = (map_of m)(''key_requirements'' \<mapsto> JList ys)"
    using assms by (simp add: map_upd_triv)
  ultimately show ?thesis by blast
qed

lemma merge_additional_effect:
  assumes "map_of m ''additional_info'' = Some (JList ys)"
  shows "\<exists>m' zs. merge_additional item m = Inr m' \<and> map fst m' = map fst m
           \<and> map_of m' = (map_of m)(''additional_info'' \<mapsto> JList zs)"
proof -
  obtain key val where item: "item = (key, val)" by (cases item)
  have same: "map_of m = (map_of m)(''additional_info'' \<mapsto> JList ys)"
    using assms by (simp add: map_upd_triv)
  show ?thesis
  proof (cases "map_of m key = None \<and> truthy val")
    case False
    then have "merge_additional item m = Inr m" by (auto simp: item merge_additional_def)
    with same show ?thesis by blast
  next
    case True
    show ?thesis
    proof (cases val)
      case (JList xs)
      with True have "merge_additional item m = list_extend m ''additional_info'' xs"
        by (simp add: item merge_additional_def)
      with list_extend_effect[OF assms, of xs] show ?thesis by auto
    next
      case (JStr s)
      with True have "merge_additional item m =
          list_append m ''additional_info'' (JStr (key @ '': '' @ s))"
        by (simp add: item merge_additional_def)
      with list_append_effect[OF assms, of "JStr (key @ '': '' @ s)"] show ?thesis by auto
    next
      case JNull
      then have "merge_additional item m = Inr m" by (simp add: item merge_additional_def)
      with same show ?thesis by blast
    next
      case (JBool b)
      then have "merge_additional item m = Inr m" by (simp add: item merge_additional_def)
      with same show ?thesis by blast
    next
      case (JInt i)
      then have "merge_additional item m = Inr m" by (simp add: item merge_additional_def)
      with same show ?thesis by blast
    next
      case (JFloat x)
      then have "merge_additional item m = Inr m" by (simp add: item merge_additional_def)
      with same show ?thesis by blast
    next
      case (JDict d)
      then have "merge_additional item m = Inr m" by (simp add: item merge_additional_def)
      with same show ?thesis by blast
    qed
  qed
qed

lemma for_each_additional:
  "map_of m ''additional_info'' = Some (JList ys) \<Longrightarrow>
   \<exists>m' zs. for_each merge_additional items m = Inr m' \<and> map fst m' = map fst m
     \<and> map_of m' = (map_of m)(''additional_info'' \<mapsto> JList zs)"
proof (induction items arbitrary: m ys)
  case Nil
  then show ?case by (auto simp: map_upd_triv intro!: exI[of _ ys])
next
  case (Cons item items)
  from merge_additional_effect[OF Cons.prems, of item] obtain m1 zs where
    m1: "merge_additional item m = Inr m1" "map fst m1 = map fst m"
        "map_of m1 = (map_of m)(''additional_info'' \<mapsto> JList zs)" by blast
  then have "map_of m1 ''additional_info'' = Some (JList zs)" by simp
  from Cons.IH[OF this] obtain m' zs' where
    m': "for_each merge_additional items m1 = Inr m'" "map fst m' = map fst m1"
        "map_of m' = (map_of m1)(''additional_info'' \<mapsto> JList zs')" by blast
  have "for_each merge_additional (item # items) m = Inr m'" using m1(1) m'(1) by simp
  moreover have "map fst m' = map fst m" using m1(2) m'(2) by simp
  moreover have "map_of m' = (map_of m)(''additional_info'' \<mapsto> JList zs')"
    using m1(3) m'(3) by simp
  ultimately show ?case by blast
qed

lemma wf_merged_init: "wf_merged merged_init"
proof -
  have "\<forall>k\<in>set nested_keys. map_of merged_init k = Some (JDict [])" by code_simp
  moreover have "map_of merged_init ''key_requirements'' = Some (JList [])" by code_simp
  moreover have "map_of merged_init ''additional_info'' = Some (JList [])" by code_simp
  ultimately show ?thesis unfolding wf_merged_def by blast
qed

lemma keys_facts:
  "distinct scalar_keys" "distinct nested_keys"
  "\<forall>k\<in>set scalar_keys. k \<notin> set nested_keys"
  "''key_requirements'' \<notin> set scalar_keys" "''key_requirements'' \<notin> set nested_keys"
  "''additional_info'' \<notin> set scalar_keys" "''additional_info'' \<notin> set nested_keys"
  "set scalar_keys \<subseteq> set (map fst merged_init)"
  "''error'' \<notin> set (map fst merged_init)"
  by code_simp+

lemma merged_init_values:
  "k \<in> set scalar_keys \<Longrightarrow> map_of merged_init k = Some JNull"
  "k \<in> set nested_keys \<Longrightarrow> map_of merged_init k = Some (JDict [])"
proof -
  have "\<forall>k\<in>set scalar_keys. map_of merged_init k = Some JNull" by code_simp
  then show "k \<in> set scalar_keys \<Longrightarrow> map_of merged_init k = Some JNull" by blast
  have "\<forall>k\<in>set nested_keys. map_of merged_init k = Some (JDict [])" by code_simp
  then show "k \<in> set nested_keys \<Longrightarrow> map_of merged_init k = Some (JDict [])" by blast
qed

lemma wf_merged_scalar_dom:
  assumes "wf_merged m" and "k \<in> set scalar_keys"
  shows "map_of m k \<noteq> None"
proof -
  have "k \<in> set (map fst m)" using assms keys_facts(8) by (auto simp: wf_merged_def)
  then show ?thesis by (simp add: map_of_eq_None_iff)
qed

lemma wf_merged_no_error: "wf_merged m \<Longrightarrow> map_of m ''error'' = None"
proof -
  assume "wf_merged m"
  then have "''error'' \<notin> set (map fst m)" using keys_facts(9) by (simp add: wf_merged_def)
  then show ?thesis by (simp add: map_of_eq_None_iff)
qed

lemma merge_one_effect:
  assumes wf: "wf_merged m"
  shows "\<exists>m'. merge_one r m = Inr m' \<and> wf_merged m'
     \<and> (\<forall>k\<in>set scalar_keys. map_of m' k = map_option (scalar_step r k) (map_of m k))
     \<and> (\<forall>k\<in>set nested_keys. map_of m' k = map_option (nested_step r k) (map_of m k))"
proof (cases "map_of r ''error'' \<noteq> None")
  case True
  then have "merge_one r m = Inr m" by (simp add: merge_one_def)
  moreover have "scalar_step r k = (\<lambda>x. x)" for k
    using True by (simp add: scalar_step_def fun_eq_iff)
  moreover have "nested_step r k = (\<lambda>x. x)" for k
    using True by (simp add: nested_step_def fun_eq_iff)
  ultimately show ?thesis using wf by (simp add: option.map_ident)
next
  case False
  have sdom: "\<forall>k\<in>set scalar_keys. map_of m k \<noteq> None"
    using wf wf_merged_scalar_dom by blast
  from for_each_scalar[OF keys_facts(1) sdom, of r] obtain m1 where
    m1: "for_each (merge_scalar r) scalar_keys m = Inr m1" "map fst m1 = map fst m"
        "\<forall>k. map_of m1 k =
           (if k \<in> set scalar_keys then map_option (scalar_pick r k) (map_of m k) else map_of m k)"
    by blast
  have n1: "\<forall>k\<in>set nested_keys. map_of m1 k = map_of m k"
    using m1(3) keys_facts(3) by auto
  then have ndom: "\<forall>k\<in>set nested_keys. \<exists>d. map_of m1 k = Some (JDict d)"
    using wf by (simp add: wf_merged_def)
  from for_each_nested[OF keys_facts(2) ndom, of r] obtain m2 where
    m2: "for_each (merge_nested r) nested_keys m1 = Inr m2" "map fst m2 = map fst m1"
        "\<forall>k. map_of m2 k =
           (if k \<in> set nested_keys then map_option (nested_pick r k) (map_of m1 k) else map_of m1 k)"
    by blast
  obtain ys where ys: "map_of m ''key_requirements'' = Some (JList ys)"
    using wf by (auto simp: wf_merged_def)
  have "map_of m2 ''key_requirements'' = Some (JList ys)"
    using m2(3) m1(3) keys_facts(4,5) ys by simp
  from merge_requirements_effect[OF this, of r] obtain m3 zs where
    m3: "merge_requirements r m2 = Inr m3" "map fst m3 = map fst m2"
        "map_of m3 = (map_of m2)(''key_requirements'' \<mapsto> JList zs)" by blast
  obtain as where as: "map_of m ''additional_info'' = Some (JList as)"
    using wf by (auto simp: wf_merged_def)
  have "map_of m3 ''additional_info'' = Some (JList as)"
    using m3(3) m2(3) m1(3) keys_facts(6,7) as by simp
  from for_each_additional[OF this, of r] obtain m4 zs' where
    m4: "for_each merge_additional r m3 = Inr m4" "map fst m4 = map fst m3"
        "map_of m4 = (map_of m3)(''additional_info'' \<mapsto> JList zs')" by blast
  have run: "merge_one r m = Inr m4"
    using False m1(1) m2(1) m3(1) m4(1) by (simp add: merge_one_def)
  have sc: "\<forall>k\<in>set scalar_keys. map_of m4 k = map_option (scalar_step r k) (map_of m k)"
  proof
    fix k assume k: "k \<in> set scalar_keys"
    then have "k \<noteq> ''additional_info''" "k \<noteq> ''key_requirements''" "k \<notin> set nested_keys"
      using keys_facts(3,4,6) by auto
    then have "map_of m4 k = map_of m1 k" using m4(3) m3(3) m2(3) by simp
    also have "\<dots> = map_option (scalar_pick r k) (map_of m k)" using m1(3) k by simp
    also have "scalar_pick r k = scalar_step r k" using False by (simp add: scalar_step_def fun_eq_iff)
    finally show "map_of m4 k = map_option (scalar_step r k) (map_of m k)" .
  qed
  have ne: "\<forall>k\<in>set nested_keys. map_of m4 k = map_option (nested_step r k) (map_of m k)"
  proof
    fix k assume k: "k \<in> set nested_keys"
    then have "k \<noteq> ''additional_info''" "k \<noteq> ''key_requirements''"
      using keys_facts(5,7) by auto
    then have "map_of m4 k = map_of m2 k" using m4(3) m3(3) by simp
    also have "\<dots> = map_option (nested_pick r k) (map_of m1 k)" using m2(3) k by simp
    also have "\<dots> = map_option (nested_pick r k) (map_of m k)" using n1 k by simp
    also have "nested_pick r k = nested_step r k" using False by (simp add: nested_step_def fun_eq_iff)
    finally show "map_of m4 k = map_option (nested_step r k) (map_of m k)" .
  qed
  have "wf_merged m4"
    unfolding wf_merged_def
  proof (intro conjI ballI)
    show "map fst m4 = map fst merged_init"
      using m4(2) m3(2) m2(2) m1(2) wf by (simp add: wf_merged_def)
  next
    fix k assume k: "k \<in> set nested_keys"
    then obtain d where "map_of m k = Some (JDict d)" using wf by (auto simp: wf_merged_def)
    with ne k have "map_of m4 k = Some (nested_step r k (JDict d))" by simp
    moreover obtain d' where "nested_pick r k (JDict d) = JDict d'"
      using nested_pick_dict by blast
    ultimately show "\<exists>d. map_of m4 k = Some (JDict d)" using False by (simp add: nested_step_def)
  next
    show "\<exists>xs. map_of m4 ''key_requirements'' = Some (JList xs)" using m4(3) m3(3) by simp
  next
    show "\<exists>xs. map_of m4 ''additional_info'' = Some (JList xs)" using m4(3) by simp
  qed
  with run sc ne show ?thesis by blast
qed

lemma merge_loop_effect:
  "wf_merged m \<Longrightarrow>
   \<exists>m'. for_each merge_one rs m = Inr m' \<and> wf_merged m'
     \<and> (\<forall>k\<in>set scalar_keys.
           map_of m' k = map_option (fold (\<lambda>r. scalar_step r k) rs) (map_of m k))
     \<and> (\<forall>k\<in>set nested_keys.
           map_of m' k = map_option (fold (\<lambda>r. nested_step r k) rs) (map_of m k))"
proof (induction rs arbitrary: m)
  case Nil
  then show ?case by (simp add: option.map_ident)
next
  case (Cons r rs)
  from merge_one_effect[OF Cons.prems, of r] obtain m1 where
    m1: "merge_one r m = Inr m1" "wf_merged m1"
        "\<forall>k\<in>set scalar_keys. map_of m1 k = map_option (scalar_step r k) (map_of m k)"
        "\<forall>k\<in>set nested_keys. map_of m1 k = map_option (nested_step r k) (map_of m k)"
    by blast
  from Cons.IH[OF m1(2)] obtain m' where
    m': "for_each merge_one rs m1 = Inr m'" "wf_merged m'"
        "\<forall>k\<in>set scalar_keys.
           map_of m' k = map_option (fold (\<lambda>r. scalar_step r k) rs) (map_of m1 k)"
        "\<forall>k\<in>set nested_keys.
           map_of m' k = map_option (fold (\<lambda>r. nested_step r k) rs) (map_of m1 k)"
    by blast
  have "for_each merge_one (r # rs) m = Inr m'" using m1(1) m'(1) by simp
  moreover have "\<forall>k\<in>set scalar_keys.
      map_of m' k = map_option (fold (\<lambda>r. scalar_step r k) (r # rs)) (map_of m k)"
    using m'(3) m1(3) by (simp add: option.map_comp comp_def)
  moreover have "\<forall>k\<in>set nested_keys.
      map_of m' k = map_option (fold (\<lambda>r. nested_step r k) (r # rs)) (map_of m k)"
    using m'(4) m1(4) by (simp add: option.map_comp comp_def)
  ultimately show ?case using m'(2) by blast
qed

lemma deduplicate_effect:
  assumes wf: "wf_merged m"
  shows "(\<exists>s. deduplicate ord m = Inl (TypeError s))
       \<or> (\<exists>m' zs. deduplicate ord m = Inr m' \<and> map fst m' = map fst m
             \<and> map_of m' = (map_of m)(''key_requirements'' \<mapsto> JList zs))"
proof -
  obtain ys where ys: "map_of m ''key_requirements'' = Some (JList ys)"
    using wf by (auto simp: wf_merged_def)
  show ?thesis
  proof (cases "ys \<noteq> [] \<and> \<not> list_all hashable ys")
    case True
    then show ?thesis using ys by (simp add: deduplicate_def list_of_set_def)
  next
    case False
    then consider "ys = []" | "ys \<noteq> []" "list_all hashable ys" by blast
    then show ?thesis
    proof cases
      case 1
      then have "deduplicate ord m = Inr m" using ys by (simp add: deduplicate_def)
      moreover have "map_of m = (map_of m)(''key_requirements'' \<mapsto> JList ys)"
        using ys by (simp add: map_upd_triv)
      ultimately show ?thesis by blast
    next
      case 2
      then have "deduplicate ord m = Inr (setitem m ''key_requirements'' (JList (ord ys)))"
        using ys by (simp add: deduplicate_def list_of_set_def)
      then show ?thesis using ys by (auto simp: map_of_setitem keys_setitem)
    qed
  qed
qed

lemma merge_result:
  assumes "merge_chunk_results ord rs = Inr m"
  shows "map fst m = map fst merged_init
     \<and> (\<forall>k\<in>set scalar_keys. map_of m k = Some (fold (\<lambda>r. scalar_step r k) rs JNull))
     \<and> (\<forall>k\<in>set nested_keys. map_of m k = Some (fold (\<lambda>r. nested_step r k) rs (JDict [])))"
proof -
  from merge_loop_effect[OF wf_merged_init, of rs] obtain m1 where
    m1: "for_each merge_one rs merged_init = Inr m1" "wf_merged m1"
        "\<forall>k\<in>set scalar_keys.
           map_of m1 k = map_option (fold (\<lambda>r. scalar_step r k) rs) (map_of merged_init k)"
        "\<forall>k\<in>set nested_keys.
           map_of m1 k = map_option (fold (\<lambda>r. nested_step r k) rs) (map_of merged_init k)"
    by blast
  have d: "deduplicate ord m1 = Inr m" using assms m1(1) by (simp add: merge_chunk_results_def)
  with deduplicate_effect[OF m1(2), of ord] obtain zs where
    m: "map fst m = map fst m1" "map_of m = (map_of m1)(''key_requirements'' \<mapsto> JList zs)"
    by auto
  have "map fst m = map fst merged_init" using m(1) m1(2) by (simp add: wf_merged_def)
  moreover have "\<forall>k\<in>set scalar_keys. map_of m k = Some (fold (\<lambda>r. scalar_step r k) rs JNull)"
    using m(2) m1(3) keys_facts(4) merged_init_values(1) by auto
  moreover have "\<forall>k\<in>set nested_keys. map_of m k = Some (fold (\<lambda>r. nested_step r k) rs (JDict []))"
    using m(2) m1(4) keys_facts(5) merged_init_values(2) by auto
  ultimately show ?thesis by blast
qed

lemma merge_raises:
  assumes "merge_chunk_results ord rs = Inl e"
  shows "\<exists>s. e = TypeError s"
proof -
  from merge_loop_effect[OF wf_merged_init, of rs] obtain m1 where
    m1: "for_each merge_one rs merged_init = Inr m1" "wf_merged m1" by blast
  have "deduplicate ord m1 = Inl e" using assms m1(1) by (simp add: merge_chunk_results_def)
  with deduplicate_effect[OF m1(2), of ord] show ?thesis by auto
qed

lemma reported_truthy: "reported k r = Some v \<Longrightarrow> truthy v"
  by (auto simp: reported_def split: if_splits option.splits)

lemma scalar_step_reported:
  "scalar_step r k old =
     (case reported k r of Some v \<Rightarrow> if truthy old then old else v | None \<Rightarrow> old)"
  by (auto simp: scalar_step_def scalar_pick_def reported_def split: option.splits)

lemma map_filter_Cons:
  "List.map_filter f (x # xs) =
     (case f x of None \<Rightarrow> List.map_filter f xs | Some y \<Rightarrow> y # List.map_filter f xs)"
  by (simp add: List.map_filter_def split: option.splits)

lemma map_filter_Nil: "List.map_filter f [] = []"
  by (simp add: List.map_filter_def)

lemma map_filter_app: "List.map_filter f (xs @ ys) = List.map_filter f xs @ List.map_filter f ys"
  by (simp add: List.map_filter_def)

lemma scalar_fold:
  "fold (\<lambda>r. scalar_step r k) rs old =
     (if truthy old then old
      else (case List.map_filter (reported k) rs of [] \<Rightarrow> old | v # _ \<Rightarrow> v))"
proof (induction rs arbitrary: old)
  case Nil
  then show ?case by (simp add: map_filter_Nil)
next
  case (Cons r rs)
  show ?case
  proof (cases "reported k r")
    case None
    then show ?thesis using Cons.IH[of old]
      by (simp add: scalar_step_reported map_filter_Cons)
  next
    case (Some v)
    then have tv: "truthy v" by (rule reported_truthy)
    show ?thesis
    proof (cases "truthy old")
      case True
      then show ?thesis using Some Cons.IH[of old]
        by (simp add: scalar_step_reported map_filter_Cons)
    next
      case False
      then show ?thesis using Some tv Cons.IH[of v]
        by (simp add: scalar_step_reported map_filter_Cons)
    qed
  qed
qed

lemma scalar_fold_null: "fold (\<lambda>r. scalar_step r k) rs JNull = first_reported k rs"
  by (simp add: scalar_fold first_reported_def)

lemma first_reported_cases:
  "first_reported k rs = JNull \<or> truthy (first_reported k rs)"
proof (cases "List.map_filter (reported k) rs")
  case Nil
  then show ?thesis by (simp add: first_reported_def)
next
  case (Cons v vs)
  then have "v \<in> set (List.map_filter (reported k) rs)" by simp
  then obtain r where "reported k r = Some v"
    by (auto simp: List.map_filter_def)
  then have "truthy v" by (rule reported_truthy)
  with Cons show ?thesis by (simp add: first_reported_def)
qed

lemma first_reported_append:
  "first_reported k (xs @ ys) =
     (if truthy (first_reported k xs) then first_reported k xs else first_reported k ys)"
proof (cases "List.map_filter (reported k) xs")
  case Nil
  then show ?thesis by (simp add: first_reported_def map_filter_app)
next
  case (Cons v vs)
  then have v: "first_reported k xs = v" "first_reported k (xs @ ys) = v"
    by (simp_all add: first_reported_def map_filter_app)
  from Cons have "v \<in> set (List.map_filter (reported k) xs)" by simp
  then obtain r where "reported k r = Some v" by (auto simp: List.map_filter_def)
  then have "truthy v" by (rule reported_truthy)
  with v show ?thesis by simp
qed

lemma merge_scalar_value:
  assumes "k \<in> set scalar_keys" and "merge_chunk_results ord rs = Inr m"
  shows "map_of m k = Some (first_reported k rs)"
  using merge_result[OF assms(2)] assms(1) by (simp add: scalar_fold_null)

lemma merged_reported:
  assumes "k \<in> set scalar_keys" and "merge_chunk_results ord rs = Inr m"
  shows "first_reported k (m # ys) = first_reported k (rs @ ys)"
proof -
  have keys: "map fst m = map fst merged_init" using merge_result[OF assms(2)] by simp
  then have "''error'' \<notin> set (map fst m)" using keys_facts(9) by simp
  then have ne: "map_of m ''error'' = None" by (simp add: map_of_eq_None_iff)
  have v: "map_of m k = Some (first_reported k rs)" by (rule merge_scalar_value[OF assms])
  have "first_reported k (m # ys) =
      (if truthy (first_reported k rs) then first_reported k rs else first_reported k ys)"
    using ne v by (simp add: first_reported_def map_filter_Cons reported_def)
  then show ?thesis by (simp add: first_reported_append)
qed

lemma dict_update_Nil: "dict_update d [] = d"
  by (simp add: dict_update_def)

lemma dict_update_append: "dict_update d (e1 @ e2) = dict_update (dict_update d e1) e2"
  by (simp add: dict_update_def)

lemma map_of_dict_update:
  "map_of (dict_update d e) sub =
     (case map_of (rev e) sub of Some v \<Rightarrow> Some v | None \<Rightarrow> map_of d sub)"
proof (induction e arbitrary: d)
  case Nil
  then show ?case by (simp add: dict_update_def)
next
  case (Cons p e)
  obtain k v where p: "p = (k, v)" by (cases p)
  have "dict_update d (p # e) = dict_update (setitem d k v) e"
    by (simp add: dict_update_def p)
  then have "map_of (dict_update d (p # e)) sub =
      (case map_of (rev e) sub of Some x \<Rightarrow> Some x | None \<Rightarrow> map_of (setitem d k v) sub)"
    using Cons.IH[of "setitem d k v"] by simp
  then show ?case
    by (auto simp: p map_of_setitem map_add_def split: option.splits)
qed

lemma nested_step_items:
  "nested_step r k (JDict d) = JDict (dict_update d (nested_items k r))"
  by (auto simp: nested_step_def nested_pick_def nested_items_def dict_update_Nil
      split: option.splits json.splits)

lemma nested_fold:
  "fold (\<lambda>r. nested_step r k) rs (JDict d) = JDict (dict_update d (all_nested_items k rs))"
proof (induction rs arbitrary: d)
  case Nil
  then show ?case by (simp add: all_nested_items_def dict_update_Nil)
next
  case (Cons r rs)
  have "all_nested_items k (r # rs) = nested_items k r @ all_nested_items k rs"
    by (simp add: all_nested_items_def)
  then show ?case
    using Cons.IH[of "dict_update d (nested_items k r)"]
    by (simp add: nested_step_items dict_update_append)
qed

lemma merge_nested_value:
  assumes "k \<in> set nested_keys" and "merge_chunk_results ord rs = Inr m"
  shows "map_of m k = Some (JDict (dict_update [] (all_nested_items k rs)))"
  using merge_result[OF assms(2)] assms(1) by (simp add: nested_fold)

lemma for_each_append:
  "for_each body (xs @ ys) s = and_then (for_each body xs s) (for_each body ys)"
  by (induction xs arbitrary: s) (auto split: sum.splits)

lemma merge_one_error: "map_of e ''error'' \<noteq> None \<Longrightarrow> merge_one e m = Inr m"
  by (simp add: merge_one_def)

lemma merge_requirements_exact:
  assumes "map_of m ''key_requirements'' = Some (JList ys)" and "map_of r ''error'' = None"
  shows "\<exists>m'. merge_requirements r m = Inr m' \<and> map fst m' = map fst m
           \<and> map_of m' = (map_of m)(''key_requirements'' \<mapsto> JList (ys @ requirements r))"
proof (cases "\<exists>xs. map_of r ''key_requirements'' = Some (JList xs)")
  case True
  then obtain xs where xs: "map_of r ''key_requirements'' = Some (JList xs)" by blast
  then have "requirements r = xs" using assms(2) by (simp add: requirements_def)
  with list_extend_effect[OF assms(1), of xs] xs show ?thesis
    by (auto simp: merge_requirements_def)
next
  case False
  then have "merge_requirements r m = Inr m" "requirements r = []"
    using assms(2)
    by (auto simp: merge_requirements_def requirements_def split: option.splits json.splits)
  moreover have "map_of m = (map_of m)(''key_requirements'' \<mapsto> JList ys)"
    using assms(1) by (simp add: map_upd_triv)
  ultimately show ?thesis by simp
qed

lemma merge_one_requirements:
  assumes wf: "wf_merged m" and ys: "map_of m ''key_requirements'' = Some (JList ys)"
  shows "\<exists>m'. merge_one r m = Inr m' \<and> wf_merged m'
     \<and> map_of m' ''key_requirements'' = Some (JList (ys @ requirements r))"
proof (cases "map_of r ''error'' \<noteq> None")
  case True
  then have "merge_one r m = Inr m" "requirements r = []"
    by (simp_all add: merge_one_def requirements_def)
  with wf ys show ?thesis by simp
next
  case False
  then have ne: "map_of r ''error'' = None" by simp
  from merge_one_effect[OF wf, of r] obtain m4 where
    m4: "merge_one r m = Inr m4" "wf_merged m4" by blast
  have sdom: "\<forall>k\<in>set scalar_keys. map_of m k \<noteq> None"
    using wf wf_merged_scalar_dom by blast
  from for_each_scalar[OF keys_facts(1) sdom, of r] obtain m1 where
    m1: "for_each (merge_scalar r) scalar_keys m = Inr m1" "map fst m1 = map fst m"
        "\<forall>k. map_of m1 k =
           (if k \<in> set scalar_keys then map_option (scalar_pick r k) (map_of m k) else map_of m k)"
    by blast
  have n1: "\<forall>k\<in>set nested_keys. map_of m1 k = map_of m k"
    using m1(3) keys_facts(3) by auto
  then have ndom: "\<forall>k\<in>set nested_keys. \<exists>d. map_of m1 k = Some (JDict d)"
    using wf by (simp add: wf_merged_def)
  from for_each_nested[OF keys_facts(2) ndom, of r] obtain m2 where
    m2: "for_each (merge_nested r) nested_keys m1 = Inr m2" "map fst m2 = map fst m1"
        "\<forall>k. map_of m2 k =
           (if k \<in> set nested_keys then map_option (nested_pick r k) (map_of m1 k) else map_of m1 k)"
    by blast
  have "map_of m2 ''key_requirements'' = Some (JList ys)"
    using m2(3) m1(3) keys_facts(4,5) ys by simp
  from merge_requirements_exact[OF this ne] obtain m3 where
    m3: "merge_requirements r m2 = Inr m3" "map fst m3 = map fst m2"
        "map_of m3 = (map_of m2)(''key_requirements'' \<mapsto> JList (ys @ requirements r))" by blast
  obtain as where as: "map_of m ''additional_info'' = Some (JList as)"
    using wf by (auto simp: wf_merged_def)
  have "map_of m3 ''additional_info'' = Some (JList as)"
    using m3(3) m2(3) m1(3) keys_facts(6,7) as by simp
  from for_each_additional[OF this, of r] obtain m4' zs' where
    m4': "for_each merge_additional r m3 = Inr m4'" "map fst m4' = map fst m3"
        "map_of m4' = (map_of m3)(''additional_info'' \<mapsto> JList zs')" by blast
  have run: "merge_one r m = Inr m4'"
    using False m1(1) m2(1) m3(1) m4'(1) by (simp add: merge_one_def)
  with m4 have eq: "m4' = m4" by simp
  have "map_of m4' ''key_requirements'' = Some (JList (ys @ requirements r))"
    using m4'(3) m3(3) by simp
  with m4 eq show ?thesis by simp
qed

lemma merge_loop_requirements:
  "wf_merged m \<Longrightarrow> map_of m ''key_requirements'' = Some (JList ys) \<Longrightarrow>
   \<exists>m'. for_each merge_one rs m = Inr m' \<and> wf_merged m'
     \<and> map_of m' ''key_requirements'' = Some (JList (ys @ all_requirements rs))"
proof (induction rs arbitrary: m ys)
  case Nil
  then show ?case by (simp add: all_requirements_def)
next
  case (Cons r rs)
  from merge_one_requirements[OF Cons.prems, of r] obtain m1 where
    m1: "merge_one r m = Inr m1" "wf_merged m1"
        "map_of m1 ''key_requirements'' = Some (JList (ys @ requirements r))" by blast
  from Cons.IH[OF m1(2,3)] obtain m' where
    m': "for_each merge_one rs m1 = Inr m'" "wf_merged m'"
        "map_of m' ''key_requirements'' = Some (JList ((ys @ requirements r) @ all_requirements rs))"
    by blast
  have "for_each merge_one (r # rs) m = Inr m'" using m1(1) m'(1) by simp
  moreover have "(ys @ requirements r) @ all_requirements rs = ys @ all_requirements (r # rs)"
    by (simp add: all_requirements_def)
  ultimately show ?case using m'(2,3) by auto
qed

text \<open>
  The merge returns exactly when every item contributed to \<open>key_requirements\<close> is
  hashable; otherwise the deduplication raises \<open>TypeError\<close>.
\<close>

lemma merge_returns_iff:
  "(\<exists>m. merge_chunk_results ord rs = Inr m) \<longleftrightarrow> list_all hashable (all_requirements rs)"
proof -
  have init: "map_of merged_init ''key_requirements'' = Some (JList [])" by code_simp
  from merge_loop_requirements[OF wf_merged_init init, of rs] obtain m1 where
    m1: "for_each merge_one rs merged_init = Inr m1" "wf_merged m1"
        "map_of m1 ''key_requirements'' = Some (JList (all_requirements rs))" by auto
  have run: "merge_chunk_results ord rs = deduplicate ord m1"
    using m1(1) by (simp add: merge_chunk_results_def)
  show ?thesis
  proof (cases "all_requirements rs = []")
    case True
    then show ?thesis using m1(3) by (simp add: run deduplicate_def)
  next
    case False
    then show ?thesis using m1(3)
      by (simp add: run deduplicate_def list_of_set_def)
  qed
qed

section \<open>Small inputs are returned unchanged\<close>

text \<open>
  Claim C9. A text whose length does not exceed the maximum chunk size is returned
  as exactly one chunk, equal to the text; with a non-negative maximum the empty text
  gives the single chunk \<open>''''\<close>.
\<close>

theorem chunk_text_small_input:
  "int (length text) \<le> max_chars \<Longrightarrow> chunk_text text max_chars = [text]"
  by (simp add: chunk_text_def)

theorem chunk_text_small_input_witness:
  "int (length ''--- Page 1 ---'') \<le> 20000
   \<and> chunk_text ''--- Page 1 ---'' 20000 = [''--- Page 1 ---'']
   \<and> int (length '''') \<le> 20000
   \<and> chunk_text '''' 20000 = ['''']"
  using chunk_text_small_input [of "''--- Page 1 ---''" 20000]
    chunk_text_small_input [of "''''" 20000]
  by simp

section \<open>A chunk longer than the maximum size\<close>

text \<open>
  Claim C3 fails on the code. The forced split of an oversized page never breaks a
  word: when a word does not fit, \<open>temp_chunk\<close> is restarted as that word and a space,
  whatever its length. With \<open>max_chars = 10\<close> the word \<open>Supercalifragilistic\<close> is
  emitted, with its space, as a chunk of 21 characters.
\<close>

theorem chunk_text_long_word_exceeds_max:
  "chunk_text ''--- Page 1 --- Supercalifragilistic ok'' 10 =
     [''--- Page '', ''1 --- '', ''Supercalifragilistic '', ''ok '']
   \<and> map length (chunk_text ''--- Page 1 --- Supercalifragilistic ok'' 10) = [9, 6, 21, 3]
   \<and> \<not> list_all (\<lambda>c. int (length c) \<le> 10)
         (chunk_text ''--- Page 1 --- Supercalifragilistic ok'' 10)"
  by code_simp

text \<open>
  Long words are the only way to an oversized chunk: if every whitespace-delimited word
  of the text is shorter than \<open>max_chars\<close>, no chunk is longer than \<open>max_chars\<close>,
  force-split pages included.
\<close>

lemma chunk_text_bounded:
  assumes "\<forall>w\<in>set (split_ws text). int (length w) < max_chars"
  shows "\<forall>c\<in>set (chunk_text text max_chars). int (length c) \<le> max_chars"
proof (cases "int (length text) \<le> max_chars")
  case True
  then show ?thesis by (simp add: chunk_text_def)
next
  case False
  obtain first rest where sp: "split_sep page_marker text = first # rest"
    using split_sep_nonempty by (cases "split_sep page_marker text") auto
  obtain chunks cur where cp: "chunk_pages first max_chars (first # rest) ([], []) = (chunks, cur)"
    by (cases "chunk_pages first max_chars (first # rest) ([], [])") auto
  have words: "\<forall>p\<in>set (first # rest). \<forall>w\<in>set (split_ws (page_text_of first p)).
                 int (length w) + 1 \<le> max_chars"
  proof (intro ballI)
    fix p w assume p: "p \<in> set (first # rest)" and w: "w \<in> set (split_ws (page_text_of first p))"
    from split_ws_sublist_bound[OF page_text_sublist[OF sp p] w]
    obtain w' where "w' \<in> set (split_ws text)" "length w \<le> length w'" by blast
    with assms show "int (length w) + 1 \<le> max_chars" by fastforce
  qed
  have "(\<forall>c\<in>set chunks. int (length c) \<le> max_chars) \<and> (cur = [] \<or> int (length cur) \<le> max_chars)"
    by (rule chunk_pages_bound[OF words _ _ cp]) simp_all
  moreover have "chunk_text text max_chars = (if cur \<noteq> [] then chunks @ [cur] else chunks)"
    using False sp cp by (simp add: chunk_text_def)
  ultimately show ?thesis by auto
qed

section \<open>Concatenating the chunks\<close>




section \<open>Scalar fields: the first truthy value wins\<close>

text \<open>
  Claim C5 fails on the code. The scalar loop, commented ``first non-null value wins'',
  tests the truth value of the chunk's value, not whether it is \<open>None\<close>. A first chunk
  result with \<open>plan_type = ""\<close> and a second with \<open>plan_type = "HMO"\<close> merge to
  \<open>plan_type = "HMO"\<close>: the earliest non-null value, the empty string of the first
  chunk result, does not set the field, and the field is set by the second.
\<close>

theorem merge_scalar_first_non_null_lost:
  "merge_chunk_results remdups [[(''plan_type'', JStr '''')], [(''plan_type'', JStr ''HMO'')]] =
     Inr [(''insurance_provider'', JNull), (''plan_name'', JNull),
          (''plan_type'', JStr ''HMO''), (''document_type'', JNull),
          (''effective_date'', JNull), (''state_specific'', JNull),
          (''coverage_details'', JDict []), (''prior_authorization'', JDict []),
          (''timely_filing'', JDict []), (''appeals_process'', JDict []),
          (''key_requirements'', JList []), (''contact_information'', JDict []),
          (''additional_info'', JList [])]
   \<and> first_non_null ''plan_type'' [[(''plan_type'', JStr '''')], [(''plan_type'', JStr ''HMO'')]]
       = JStr ''''"
  by code_simp

text \<open>
  What the code does instead: whenever the merge returns, each scalar field holds the
  value of the earliest chunk result without error marker that reports a truthy value
  for it (and \<open>None\<close> when there is none); once that value is truthy, no chunk result
  merged after it changes the field. The example of the claim, \<open>plan_type = "PPO"\<close>
  followed by \<open>plan_type = "HMO"\<close>, gives \<open>"PPO"\<close>.
\<close>

lemma merge_scalar_first_wins:
  assumes "k \<in> set scalar_keys"
    and "merge_chunk_results set_order chunk_results = Inr merged"
  shows "map_of merged k = Some (first_reported k chunk_results)
     \<and> (\<forall>more merged'.
          truthy (first_reported k chunk_results)
          \<and> merge_chunk_results set_order (chunk_results @ more) = Inr merged'
          \<longrightarrow> map_of merged' k = map_of merged k)"
proof -
  have a: "map_of merged k = Some (first_reported k chunk_results)"
    by (rule merge_scalar_value[OF assms])
  have "map_of merged' k = map_of merged k"
    if "truthy (first_reported k chunk_results)"
      and "merge_chunk_results set_order (chunk_results @ more) = Inr merged'" for more merged'
  proof -
    have "map_of merged' k = Some (first_reported k (chunk_results @ more))"
      by (rule merge_scalar_value[OF assms(1) that(2)])
    with that(1) a show ?thesis by (simp add: first_reported_append)
  qed
  with a show ?thesis by blast
qed

lemma merge_scalar_first_wins_example:
  "list_ex (\<lambda>k. k = ''plan_type'') scalar_keys
   \<and> merge_chunk_results remdups [[(''plan_type'', JStr ''PPO'')], [(''plan_type'', JStr ''HMO'')]] =
     Inr [(''insurance_provider'', JNull), (''plan_name'', JNull),
          (''plan_type'', JStr ''PPO''), (''document_type'', JNull),
          (''effective_date'', JNull), (''state_specific'', JNull),
          (''coverage_details'', JDict []), (''prior_authorization'', JDict []),
          (''timely_filing'', JDict []), (''appeals_process'', JDict []),
          (''key_requirements'', JList []), (''contact_information'', JDict []),
          (''additional_info'', JList [])]
   \<and> first_reported ''plan_type'' [[(''plan_type'', JStr ''PPO'')], [(''plan_type'', JStr ''HMO'')]] = JStr ''PPO''
   \<and> map_of [(''insurance_provider'', JNull), (''plan_name'', JNull),
          (''plan_type'', JStr ''PPO''), (''document_type'', JNull),
          (''effective_date'', JNull), (''state_specific'', JNull),
          (''coverage_details'', JDict []), (''prior_authorization'', JDict []),
          (''timely_filing'', JDict []), (''appeals_process'', JDict []),
          (''key_requirements'', JList []), (''contact_information'', JDict []),
          (''additional_info'', JList [])] ''plan_type'' = Some (JStr ''PPO'')
   \<and> truthy (first_reported ''plan_type'' [[(''plan_type'', JStr ''PPO'')], [(''plan_type'', JStr ''HMO'')]])
   \<and> merge_chunk_results remdups
        ([[(''plan_type'', JStr ''PPO'')], [(''plan_type'', JStr ''HMO'')]] @
         [[(''plan_type'', JStr ''POS''), (''plan_name'', JStr ''Gold'')]]) =
     Inr [(''insurance_provider'', JNull), (''plan_name'', JStr ''Gold''),
          (''plan_type'', JStr ''PPO''), (''document_type'', JNull),
          (''effective_date'', JNull), (''state_specific'', JNull),
          (''coverage_details'', JDict []), (''prior_authorization'', JDict []),
          (''timely_filing'', JDict []), (''appeals_process'', JDict []),
          (''key_requirements'', JList []), (''contact_information'', JDict []),
          (''additional_info'', JList [])]
   \<and> map_of [(''insurance_provider'', JNull), (''plan_name'', JStr ''Gold''),
          (''plan_type'', JStr ''PPO''), (''document_type'', JNull),
          (''effective_date'', JNull), (''state_specific'', JNull),
          (''coverage_details'', JDict []), (''prior_authorization'', JDict []),
          (''timely_filing'', JDict []), (''appeals_process'', JDict []),
          (''key_requirements'', JList []), (''contact_information'', JDict []),
          (''additional_info'', JList [])] ''plan_type'' = Some (JStr ''PPO'')"
proof -
  let ?rs = "[[(''plan_type'', JStr ''PPO'')], [(''plan_type'', JStr ''HMO'')]]"
  let ?more = "[[(''plan_type'', JStr ''POS''), (''plan_name'', JStr ''Gold'')]]"
  let ?m = "[(''insurance_provider'', JNull), (''plan_name'', JNull),
          (''plan_type'', JStr ''PPO''), (''document_type'', JNull),
          (''effective_date'', JNull), (''state_specific'', JNull),
          (''coverage_details'', JDict []), (''prior_authorization'', JDict []),
          (''timely_filing'', JDict []), (''appeals_process'', JDict []),
          (''key_requirements'', JList []), (''contact_information'', JDict []),
          (''additional_info'', JList [])]"
  let ?m2 = "[(''insurance_provider'', JNull), (''plan_name'', JStr ''Gold''),
          (''plan_type'', JStr ''PPO''), (''document_type'', JNull),
          (''effective_date'', JNull), (''state_specific'', JNull),
          (''coverage_details'', JDict []), (''prior_authorization'', JDict []),
          (''timely_filing'', JDict []), (''appeals_process'', JDict []),
          (''key_requirements'', JList []), (''contact_information'', JDict []),
          (''additional_info'', JList [])]"
  have k: "''plan_type'' \<in> set scalar_keys" by code_simp
  have k': "list_ex (\<lambda>k. k = ''plan_type'') scalar_keys" by code_simp
  have run: "merge_chunk_results remdups ?rs = Inr ?m" by code_simp
  have fr: "first_reported ''plan_type'' ?rs = JStr ''PPO''" by code_simp
  have tr: "truthy (first_reported ''plan_type'' ?rs)" by code_simp
  have run2: "merge_chunk_results remdups (?rs @ ?more) = Inr ?m2" by code_simp
  from merge_scalar_first_wins[OF k run] have
    a: "map_of ?m ''plan_type'' = Some (first_reported ''plan_type'' ?rs)"
    and b: "\<forall>more merged'. truthy (first_reported ''plan_type'' ?rs)
          \<and> merge_chunk_results remdups (?rs @ more) = Inr merged'
          \<longrightarrow> map_of merged' ''plan_type'' = map_of ?m ''plan_type''"
    by blast+
  from a fr have a': "map_of ?m ''plan_type'' = Some (JStr ''PPO'')" by (simp only:)
  from b tr run2 have "map_of ?m2 ''plan_type'' = map_of ?m ''plan_type''" by blast
  with a' have b': "map_of ?m2 ''plan_type'' = Some (JStr ''PPO'')" by (simp only:)
  from k' run fr a' tr run2 b' show ?thesis by blast
qed

section \<open>Nested fields: keys accumulate, the last value wins\<close>

text \<open>
  Claim C6 fails on the code. \<open>dict.update\<close> overwrites a colliding sub-key with every
  value of the later chunk result, \<open>None\<close> included, and the service is told to answer
  \<open>null\<close> for what it does not find. \<open>deductible = "$500"\<close> followed by
  \<open>deductible = None\<close> merges to \<open>deductible = None\<close>: the last non-null value,
  \<open>"$500"\<close>, is erased.
\<close>

theorem merge_nested_null_overwrites:
  "merge_chunk_results remdups
     [[(''coverage_details'', JDict [(''deductible'', JStr ''$500'')])],
      [(''coverage_details'', JDict [(''deductible'', JNull)])]] =
     Inr [(''insurance_provider'', JNull), (''plan_name'', JNull),
          (''plan_type'', JNull), (''document_type'', JNull),
          (''effective_date'', JNull), (''state_specific'', JNull),
          (''coverage_details'', JDict [(''deductible'', JNull)]),
          (''prior_authorization'', JDict []),
          (''timely_filing'', JDict []), (''appeals_process'', JDict []),
          (''key_requirements'', JList []), (''contact_information'', JDict []),
          (''additional_info'', JList [])]
   \<and> last_non_null ''deductible''
        (all_nested_items ''coverage_details''
          [[(''coverage_details'', JDict [(''deductible'', JStr ''$500'')])],
           [(''coverage_details'', JDict [(''deductible'', JNull)])]])
       = Some (JStr ''$500'')"
  by code_simp

text \<open>
  What the code does instead: whenever the merge returns, each nested field is a
  dictionary whose keys are exactly the sub-keys contributed by the chunk results
  without error marker (those whose value under the field is a dictionary), and each
  sub-key is bound to the value of the last chunk result that has it, \<open>None\<close>
  included. The example of the claim, \<open>{"deductible": "$500"}\<close> and
  \<open>{"copay": "$20"}\<close>, merges to a dictionary with both keys.
\<close>

lemma merge_nested_last_wins:
  assumes "k \<in> set nested_keys"
    and "merge_chunk_results set_order chunk_results = Inr merged"
  shows "\<exists>d. map_of merged k = Some (JDict d)
     \<and> set (map fst d) = set (map fst (all_nested_items k chunk_results))
     \<and> (\<forall>sub. map_of d sub = last_binding sub (all_nested_items k chunk_results))"
proof -
  let ?d = "dict_update [] (all_nested_items k chunk_results)"
  have m: "map_of merged k = Some (JDict ?d)" by (rule merge_nested_value[OF assms])
  have l: "map_of ?d sub = last_binding sub (all_nested_items k chunk_results)" for sub
    by (simp add: map_of_dict_update last_binding_def split: option.splits)
  have "dom (map_of ?d) = dom (map_of (rev (all_nested_items k chunk_results)))"
    using l by (auto simp: last_binding_def dom_def)
  then have "set (map fst ?d) = set (map fst (all_nested_items k chunk_results))"
    by (simp add: dom_map_of_conv_image_fst)
  with m l show ?thesis by blast
qed

lemma merge_nested_last_wins_example:
  "list_ex (\<lambda>k. k = ''coverage_details'') nested_keys
   \<and> merge_chunk_results remdups
     [[(''coverage_details'', JDict [(''deductible'', JStr ''$500'')])],
      [(''coverage_details'', JDict [(''copay'', JStr ''$20'')])]] =
     Inr [(''insurance_provider'', JNull), (''plan_name'', JNull),
          (''plan_type'', JNull), (''document_type'', JNull),
          (''effective_date'', JNull), (''state_specific'', JNull),
          (''coverage_details'', JDict [(''deductible'', JStr ''$500''), (''copay'', JStr ''$20'')]),
          (''prior_authorization'', JDict []),
          (''timely_filing'', JDict []), (''appeals_process'', JDict []),
          (''key_requirements'', JList []), (''contact_information'', JDict []),
          (''additional_info'', JList [])]
   \<and> set (map fst [(''deductible'', JStr ''$500''), (''copay'', JStr ''$20'')])
       = set (map fst (all_nested_items ''coverage_details''
           [[(''coverage_details'', JDict [(''deductible'', JStr ''$500'')])],
            [(''coverage_details'', JDict [(''copay'', JStr ''$20'')])]]))"
proof -
  let ?rs = "[[(''coverage_details'', JDict [(''deductible'', JStr ''$500'')])],
      [(''coverage_details'', JDict [(''copay'', JStr ''$20'')])]]"
  let ?m = "[(''insurance_provider'', JNull), (''plan_name'', JNull),
          (''plan_type'', JNull), (''document_type'', JNull),
          (''effective_date'', JNull), (''state_specific'', JNull),
          (''coverage_details'', JDict [(''deductible'', JStr ''$500''), (''copay'', JStr ''$20'')]),
          (''prior_authorization'', JDict []),
          (''timely_filing'', JDict []), (''appeals_process'', JDict []),
          (''key_requirements'', JList []), (''contact_information'', JDict []),
          (''additional_info'', JList [])]"
  have k: "''coverage_details'' \<in> set nested_keys" by code_simp
  have k': "list_ex (\<lambda>k. k = ''coverage_details'') nested_keys" by code_simp
  have run: "merge_chunk_results remdups ?rs = Inr ?m" by code_simp
  have look: "map_of ?m ''coverage_details'' =
      Some (JDict [(''deductible'', JStr ''$500''), (''copay'', JStr ''$20'')])" by code_simp
  from merge_nested_last_wins[OF k run] look have
    "set (map fst [(''deductible'', JStr ''$500''), (''copay'', JStr ''$20'')])
       = set (map fst (all_nested_items ''coverage_details'' ?rs))" by auto
  with k' run show ?thesis by blast
qed

section \<open>Error records contribute nothing\<close>

text \<open>
  Claim C7. A chunk result that carries an error marker contributes nothing to the
  merge: at any position of the sequence, merging with it gives the same outcome as
  merging without it. In particular an error record followed by \<open>{"plan_name": "X"}\<close>
  merges to the skeleton with \<open>plan_name = "X"\<close>.
\<close>

theorem merge_skips_error_records:
  assumes "map_of e ''error'' \<noteq> None"
  shows "merge_chunk_results set_order (xs @ e # ys) = merge_chunk_results set_order (xs @ ys)"
proof -
  have "for_each merge_one (xs @ e # ys) merged_init = for_each merge_one (xs @ ys) merged_init"
  proof (cases "for_each merge_one xs merged_init")
    case (Inl err)
    then show ?thesis by (simp add: for_each_append)
  next
    case (Inr m)
    then show ?thesis using merge_one_error[OF assms] by (simp add: for_each_append)
  qed
  then show ?thesis by (simp add: merge_chunk_results_def)
qed

theorem merge_skips_error_records_witness:
  "map_of [(''error'', JStr ''boom''), (''chunk'', JInt 1)] ''error'' \<noteq> None
   \<and> merge_chunk_results remdups
       [[(''error'', JStr ''boom''), (''chunk'', JInt 1)], [(''plan_name'', JStr ''X'')]]
     = merge_chunk_results remdups [[(''plan_name'', JStr ''X'')]]
   \<and> merge_chunk_results remdups [[(''plan_name'', JStr ''X'')]] =
     Inr [(''insurance_provider'', JNull), (''plan_name'', JStr ''X''),
          (''plan_type'', JNull), (''document_type'', JNull),
          (''effective_date'', JNull), (''state_specific'', JNull),
          (''coverage_details'', JDict []), (''prior_authorization'', JDict []),
          (''timely_filing'', JDict []), (''appeals_process'', JDict []),
          (''key_requirements'', JList []), (''contact_information'', JDict []),
          (''additional_info'', JList [])]"
proof -
  have e: "map_of [(''error'', JStr ''boom''), (''chunk'', JInt 1)] ''error'' \<noteq> None"
    by code_simp
  have run: "merge_chunk_results remdups [[(''plan_name'', JStr ''X'')]] =
     Inr [(''insurance_provider'', JNull), (''plan_name'', JStr ''X''),
          (''plan_type'', JNull), (''document_type'', JNull),
          (''effective_date'', JNull), (''state_specific'', JNull),
          (''coverage_details'', JDict []), (''prior_authorization'', JDict []),
          (''timely_filing'', JDict []), (''appeals_process'', JDict []),
          (''key_requirements'', JList []), (''contact_information'', JDict []),
          (''additional_info'', JList [])]" by code_simp
  from merge_skips_error_records[OF e, of remdups "[]" "[[(''plan_name'', JStr ''X'')]]"]
  have "merge_chunk_results remdups
       [[(''error'', JStr ''boom''), (''chunk'', JInt 1)], [(''plan_name'', JStr ''X'')]]
     = merge_chunk_results remdups [[(''plan_name'', JStr ''X'')]]" by simp
  with e run show ?thesis by blast
qed

section \<open>Merging in one pass and merging step by step\<close>

text \<open>
  Claim C8. For all chunk results \<open>A\<close>, \<open>B\<close>, \<open>C\<close>: when merging \<open>[A]\<close>, then merging
  the result with \<open>B\<close>, then merging that result with \<open>C\<close> all return, and merging
  \<open>[A, B, C]\<close> in one pass returns, the two final records hold the same value in every
  scalar field. (The records as a whole may differ: in the example below the one-pass
  record keeps an \<open>additional_info\<close> entry that the step-by-step record loses.)
\<close>

theorem merge_scalar_associative:
  assumes "k \<in> set scalar_keys"
    and "merge_chunk_results set_order [A] = Inr mA"
    and "merge_chunk_results set_order [mA, B] = Inr mAB"
    and "merge_chunk_results set_order [mAB, C] = Inr mABC"
    and "merge_chunk_results set_order [A, B, C] = Inr m"
  shows "map_of mABC k = map_of m k"
proof -
  have "map_of mABC k = Some (first_reported k [mAB, C])"
    by (rule merge_scalar_value[OF assms(1,4)])
  also have "first_reported k [mAB, C] = first_reported k ([mA, B] @ [C])"
    by (rule merged_reported[OF assms(1,3)])
  also have "[mA, B] @ [C] = mA # [B, C]" by simp
  also have "first_reported k (mA # [B, C]) = first_reported k ([A] @ [B, C])"
    by (rule merged_reported[OF assms(1,2)])
  also have "[A] @ [B, C] = [A, B, C]" by simp
  also have "Some (first_reported k [A, B, C]) = map_of m k"
    by (rule merge_scalar_value[OF assms(1,5), symmetric])
  finally show ?thesis .
qed

theorem merge_scalar_associative_witness:
  "list_all (\<lambda>k.
      map_of [(''insurance_provider'', JStr ''Acme''), (''plan_name'', JStr ''Gold''),
              (''plan_type'', JStr ''PPO''), (''document_type'', JNull),
              (''effective_date'', JNull), (''state_specific'', JNull),
              (''coverage_details'', JDict []), (''prior_authorization'', JDict []),
              (''timely_filing'', JDict []), (''appeals_process'', JDict []),
              (''key_requirements'', JList []), (''contact_information'', JDict []),
              (''additional_info'', JList [])] k
      = map_of [(''insurance_provider'', JStr ''Acme''), (''plan_name'', JStr ''Gold''),
              (''plan_type'', JStr ''PPO''), (''document_type'', JNull),
              (''effective_date'', JNull), (''state_specific'', JNull),
              (''coverage_details'', JDict []), (''prior_authorization'', JDict []),
              (''timely_filing'', JDict []), (''appeals_process'', JDict []),
              (''key_requirements'', JList []), (''contact_information'', JDict []),
              (''additional_info'', JList [JStr ''notes: n''])] k) scalar_keys
   \<and> merge_chunk_results remdups [[(''plan_type'', JStr ''PPO'')]] = Inr [(''insurance_provider'', JNull), (''plan_name'', JNull),
              (''plan_type'', JStr ''PPO''), (''document_type'', JNull),
              (''effective_date'', JNull), (''state_specific'', JNull),
              (''coverage_details'', JDict []), (''prior_authorization'', JDict []),
              (''timely_filing'', JDict []), (''appeals_process'', JDict []),
              (''key_requirements'', JList []), (''contact_information'', JDict []),
              (''additional_info'', JList [])]
   \<and> merge_chunk_results remdups [[(''insurance_provider'', JNull), (''plan_name'', JNull),
              (''plan_type'', JStr ''PPO''), (''document_type'', JNull),
              (''effective_date'', JNull), (''state_specific'', JNull),
              (''coverage_details'', JDict []), (''prior_authorization'', JDict []),
              (''timely_filing'', JDict []), (''appeals_process'', JDict []),
              (''key_requirements'', JList []), (''contact_information'', JDict []),
              (''additional_info'', JList [])],
        [(''plan_type'', JStr ''HMO''), (''plan_name'', JStr ''Gold''), (''notes'', JStr ''n'')]] = Inr [(''insurance_provider'', JNull), (''plan_name'', JStr ''Gold''),
              (''plan_type'', JStr ''PPO''), (''document_type'', JNull),
              (''effective_date'', JNull), (''state_specific'', JNull),
              (''coverage_details'', JDict []), (''prior_authorization'', JDict []),
              (''timely_filing'', JDict []), (''appeals_process'', JDict []),
              (''key_requirements'', JList []), (''contact_information'', JDict []),
              (''additional_info'', JList [JStr ''notes: n''])]
   \<and> merge_chunk_results remdups [[(''insurance_provider'', JNull), (''plan_name'', JStr ''Gold''),
              (''plan_type'', JStr ''PPO''), (''document_type'', JNull),
              (''effective_date'', JNull), (''state_specific'', JNull),
              (''coverage_details'', JDict []), (''prior_authorization'', JDict []),
              (''timely_filing'', JDict []), (''appeals_process'', JDict []),
              (''key_requirements'', JList []), (''contact_information'', JDict []),
              (''additional_info'', JList [JStr ''notes: n''])],
        [(''insurance_provider'', JStr ''Acme'')]] = Inr [(''insurance_provider'', JStr ''Acme''), (''plan_name'', JStr ''Gold''),
              (''plan_type'', JStr ''PPO''), (''document_type'', JNull),
              (''effective_date'', JNull), (''state_specific'', JNull),
              (''coverage_details'', JDict []), (''prior_authorization'', JDict []),
              (''timely_filing'', JDict []), (''appeals_process'', JDict []),
              (''key_requirements'', JList []), (''contact_information'', JDict []),
              (''additional_info'', JList [])]
   \<and> merge_chunk_results remdups [[(''plan_type'', JStr ''PPO'')], [(''plan_type'', JStr ''HMO''), (''plan_name'', JStr ''Gold''), (''notes'', JStr ''n'')],
        [(''insurance_provider'', JStr ''Acme'')]] = Inr [(''insurance_provider'', JStr ''Acme''), (''plan_name'', JStr ''Gold''),
              (''plan_type'', JStr ''PPO''), (''document_type'', JNull),
              (''effective_date'', JNull), (''state_specific'', JNull),
              (''coverage_details'', JDict []), (''prior_authorization'', JDict []),
              (''timely_filing'', JDict []), (''appeals_process'', JDict []),
              (''key_requirements'', JList []), (''contact_information'', JDict []),
              (''additional_info'', JList [JStr ''notes: n''])]"
proof -
  have a: "merge_chunk_results remdups [[(''plan_type'', JStr ''PPO'')]] = Inr [(''insurance_provider'', JNull), (''plan_name'', JNull),
              (''plan_type'', JStr ''PPO''), (''document_type'', JNull),
              (''effective_date'', JNull), (''state_specific'', JNull),
              (''coverage_details'', JDict []), (''prior_authorization'', JDict []),
              (''timely_filing'', JDict []), (''appeals_process'', JDict []),
              (''key_requirements'', JList []), (''contact_information'', JDict []),
              (''additional_info'', JList [])]"
    by code_simp
  have b: "merge_chunk_results remdups [[(''insurance_provider'', JNull), (''plan_name'', JNull),
              (''plan_type'', JStr ''PPO''), (''document_type'', JNull),
              (''effective_date'', JNull), (''state_specific'', JNull),
              (''coverage_details'', JDict []), (''prior_authorization'', JDict []),
              (''timely_filing'', JDict []), (''appeals_process'', JDict []),
              (''key_requirements'', JList []), (''contact_information'', JDict []),
              (''additional_info'', JList [])], [(''plan_type'', JStr ''HMO''), (''plan_name'', JStr ''Gold''), (''notes'', JStr ''n'')]] = Inr [(''insurance_provider'', JNull), (''plan_name'', JStr ''Gold''),
              (''plan_type'', JStr ''PPO''), (''document_type'', JNull),
              (''effective_date'', JNull), (''state_specific'', JNull),
              (''coverage_details'', JDict []), (''prior_authorization'', JDict []),
              (''timely_filing'', JDict []), (''appeals_process'', JDict []),
              (''key_requirements'', JList []), (''contact_information'', JDict []),
              (''additional_info'', JList [JStr ''notes: n''])]"
    by code_simp
  have c: "merge_chunk_results remdups [[(''insurance_provider'', JNull), (''plan_name'', JStr ''Gold''),
              (''plan_type'', JStr ''PPO''), (''document_type'', JNull),
              (''effective_date'', JNull), (''state_specific'', JNull),
              (''coverage_details'', JDict []), (''prior_authorization'', JDict []),
              (''timely_filing'', JDict []), (''appeals_process'', JDict []),
              (''key_requirements'', JList []), (''contact_information'', JDict []),
              (''additional_info'', JList [JStr ''notes: n''])], [(''insurance_provider'', JStr ''Acme'')]] = Inr [(''insurance_provider'', JStr ''Acme''), (''plan_name'', JStr ''Gold''),
              (''plan_type'', JStr ''PPO''), (''document_type'', JNull),
              (''effective_date'', JNull), (''state_specific'', JNull),
              (''coverage_details'', JDict []), (''prior_authorization'', JDict []),
              (''timely_filing'', JDict []), (''appeals_process'', JDict []),
              (''key_requirements'', JList []), (''contact_information'', JDict []),
              (''additional_info'', JList [])]"
    by code_simp
  have d: "merge_chunk_results remdups [[(''plan_type'', JStr ''PPO'')], [(''plan_type'', JStr ''HMO''), (''plan_name'', JStr ''Gold''), (''notes'', JStr ''n'')], [(''insurance_provider'', JStr ''Acme'')]] = Inr [(''insurance_provider'', JStr ''Acme''), (''plan_name'', JStr ''Gold''),
              (''plan_type'', JStr ''PPO''), (''document_type'', JNull),
              (''effective_date'', JNull), (''state_specific'', JNull),
              (''coverage_details'', JDict []), (''prior_authorization'', JDict []),
              (''timely_filing'', JDict []), (''appeals_process'', JDict []),
              (''key_requirements'', JList []), (''contact_information'', JDict []),
              (''additional_info'', JList [JStr ''notes: n''])]"
    by code_simp
  have "\<forall>k\<in>set scalar_keys. map_of [(''insurance_provider'', JStr ''Acme''), (''plan_name'', JStr ''Gold''),
              (''plan_type'', JStr ''PPO''), (''document_type'', JNull),
              (''effective_date'', JNull), (''state_specific'', JNull),
              (''coverage_details'', JDict []), (''prior_authorization'', JDict []),
              (''timely_filing'', JDict []), (''appeals_process'', JDict []),
              (''key_requirements'', JList []), (''contact_information'', JDict []),
              (''additional_info'', JList [])] k = map_of [(''insurance_provider'', JStr ''Acme''), (''plan_name'', JStr ''Gold''),
              (''plan_type'', JStr ''PPO''), (''document_type'', JNull),
              (''effective_date'', JNull), (''state_specific'', JNull),
              (''coverage_details'', JDict []), (''prior_authorization'', JDict []),
              (''timely_filing'', JDict []), (''appeals_process'', JDict []),
              (''key_requirements'', JList []), (''contact_information'', JDict []),
              (''additional_info'', JList [JStr ''notes: n''])] k"
    using merge_scalar_associative[OF _ a b c d] by blast
  then have "list_all (\<lambda>k. map_of [(''insurance_provider'', JStr ''Acme''), (''plan_name'', JStr ''Gold''),
              (''plan_type'', JStr ''PPO''), (''document_type'', JNull),
              (''effective_date'', JNull), (''state_specific'', JNull),
              (''coverage_details'', JDict []), (''prior_authorization'', JDict []),
              (''timely_filing'', JDict []), (''appeals_process'', JDict []),
              (''key_requirements'', JList []), (''contact_information'', JDict []),
              (''additional_info'', JList [])] k = map_of [(''insurance_provider'', JStr ''Acme''), (''plan_name'', JStr ''Gold''),
              (''plan_type'', JStr ''PPO''), (''document_type'', JNull),
              (''effective_date'', JNull), (''state_specific'', JNull),
              (''coverage_details'', JDict []), (''prior_authorization'', JDict []),
              (''timely_filing'', JDict []), (''appeals_process'', JDict []),
              (''key_requirements'', JList []), (''contact_information'', JDict []),
              (''additional_info'', JList [JStr ''notes: n''])] k) scalar_keys"
    by (simp only: list_all_iff)
  with a b c d show ?thesis by blast
qed

section \<open>Falsy scalar values count as absent\<close>

text \<open>
  Claim C10. A falsy value (empty string, zero, empty list, \<open>False\<close>) under a scalar
  key counts as absent. Whenever the merge returns: a scalar field of the merged record
  is \<open>None\<close> or a truthy value, never a falsy value other than \<open>None\<close>; it is \<open>None\<close> when
  every chunk result has no value or a falsy value under the key; and when the chunk
  results before some chunk result without error marker have no value or a falsy value
  under the key and that chunk result has a truthy one, the field holds that truthy
  value, whatever follows.
\<close>

theorem merge_falsy_scalar_ignored:
  assumes "k \<in> set scalar_keys"
    and "merge_chunk_results set_order chunk_results = Inr merged"
  shows "(\<exists>v. map_of merged k = Some v \<and> (v = JNull \<or> truthy v))
    \<and> ((\<forall>r\<in>set chunk_results. case map_of r k of Some v \<Rightarrow> \<not> truthy v | None \<Rightarrow> True)
         \<longrightarrow> map_of merged k = Some JNull)
    \<and> (\<forall>earlier r later v.
          chunk_results = earlier @ r # later
          \<and> (\<forall>r'\<in>set earlier. case map_of r' k of Some v' \<Rightarrow> \<not> truthy v' | None \<Rightarrow> True)
          \<and> map_of r ''error'' = None \<and> map_of r k = Some v \<and> truthy v
          \<longrightarrow> map_of merged k = Some v)"
proof -
  have val: "map_of merged k = Some (first_reported k chunk_results)"
    by (rule merge_scalar_value[OF assms])
  have none: "List.map_filter (reported k) rs = []"
    if "\<forall>r\<in>set rs. case map_of r k of Some v \<Rightarrow> \<not> truthy v | None \<Rightarrow> True" for rs
  proof -
    from that have "\<forall>r\<in>set rs. reported k r = None"
      by (auto simp: reported_def split: option.splits)
    then show ?thesis by (simp add: List.map_filter_def filter_empty_conv)
  qed
  have A: "\<exists>v. map_of merged k = Some v \<and> (v = JNull \<or> truthy v)"
    using val first_reported_cases[of k chunk_results] by simp
  have B: "map_of merged k = Some JNull"
    if "\<forall>r\<in>set chunk_results. case map_of r k of Some v \<Rightarrow> \<not> truthy v | None \<Rightarrow> True"
    using val none[OF that] by (simp add: first_reported_def)
  have C: "map_of merged k = Some v"
    if h: "chunk_results = earlier @ r # later"
      "\<forall>r'\<in>set earlier. case map_of r' k of Some v' \<Rightarrow> \<not> truthy v' | None \<Rightarrow> True"
      "map_of r ''error'' = None" "map_of r k = Some v" "truthy v"
    for earlier r later v
  proof -
    have "reported k r = Some v" using h(3,4,5) by (simp add: reported_def)
    with none[OF h(2)] have "first_reported k (earlier @ r # later) = v"
      by (simp add: first_reported_def map_filter_app map_filter_Cons)
    with val h(1) show ?thesis by simp
  qed
  from A B C show ?thesis by blast
qed

theorem merge_falsy_scalar_ignored_witness:
  "list_ex (\<lambda>k. k = ''plan_type'') scalar_keys
   \<and> list_all (\<lambda>r. case map_of r ''plan_type'' of Some v \<Rightarrow> \<not> truthy v | None \<Rightarrow> True)
       [[(''plan_type'', JStr '''')], [(''plan_type'', JInt 0)], [(''plan_type'', JList [])],
          [(''plan_type'', JBool False)], [(''plan_name'', JStr ''Gold'')]]
   \<and> merge_chunk_results remdups
       [[(''plan_type'', JStr '''')], [(''plan_type'', JInt 0)], [(''plan_type'', JList [])],
          [(''plan_type'', JBool False)], [(''plan_name'', JStr ''Gold'')]] =
     Inr [(''insurance_provider'', JNull), (''plan_name'', JStr ''Gold''),
              (''plan_type'', JNull), (''document_type'', JNull),
              (''effective_date'', JNull), (''state_specific'', JNull),
              (''coverage_details'', JDict []), (''prior_authorization'', JDict []),
              (''timely_filing'', JDict []), (''appeals_process'', JDict []),
              (''key_requirements'', JList []), (''contact_information'', JDict []),
              (''additional_info'', JList [])]
   \<and> map_of [(''insurance_provider'', JNull), (''plan_name'', JStr ''Gold''),
              (''plan_type'', JNull), (''document_type'', JNull),
              (''effective_date'', JNull), (''state_specific'', JNull),
              (''coverage_details'', JDict []), (''prior_authorization'', JDict []),
              (''timely_filing'', JDict []), (''appeals_process'', JDict []),
              (''key_requirements'', JList []), (''contact_information'', JDict []),
              (''additional_info'', JList [])] ''plan_type'' = Some JNull
   \<and> map_of [(''plan_type'', JStr ''HMO'')] ''error'' = None
   \<and> map_of [(''plan_type'', JStr ''HMO'')] ''plan_type'' = Some (JStr ''HMO'')
   \<and> truthy (JStr ''HMO'')
   \<and> merge_chunk_results remdups
       ([[(''plan_type'', JStr '''')], [(''plan_type'', JInt 0)], [(''plan_type'', JList [])],
          [(''plan_type'', JBool False)], [(''plan_name'', JStr ''Gold'')]]
        @ [(''plan_type'', JStr ''HMO'')] # [[(''plan_type'', JStr ''PPO'')]]) =
     Inr [(''insurance_provider'', JNull), (''plan_name'', JStr ''Gold''),
              (''plan_type'', JStr ''HMO''), (''document_type'', JNull),
              (''effective_date'', JNull), (''state_specific'', JNull),
              (''coverage_details'', JDict []), (''prior_authorization'', JDict []),
              (''timely_filing'', JDict []), (''appeals_process'', JDict []),
              (''key_requirements'', JList []), (''contact_information'', JDict []),
              (''additional_info'', JList [])]
   \<and> map_of [(''insurance_provider'', JNull), (''plan_name'', JStr ''Gold''),
              (''plan_type'', JStr ''HMO''), (''document_type'', JNull),
              (''effective_date'', JNull), (''state_specific'', JNull),
              (''coverage_details'', JDict []), (''prior_authorization'', JDict []),
              (''timely_filing'', JDict []), (''appeals_process'', JDict []),
              (''key_requirements'', JList []), (''contact_information'', JDict []),
              (''additional_info'', JList [])] ''plan_type'' = Some (JStr ''HMO'')"
proof -
  let ?falsy = "[[(''plan_type'', JStr '''')], [(''plan_type'', JInt 0)], [(''plan_type'', JList [])],
          [(''plan_type'', JBool False)], [(''plan_name'', JStr ''Gold'')]]"
  let ?r = "[(''plan_type'', JStr ''HMO'')]"
  let ?later = "[[(''plan_type'', JStr ''PPO'')]]"
  let ?m0 = "[(''insurance_provider'', JNull), (''plan_name'', JStr ''Gold''),
              (''plan_type'', JNull), (''document_type'', JNull),
              (''effective_date'', JNull), (''state_specific'', JNull),
              (''coverage_details'', JDict []), (''prior_authorization'', JDict []),
              (''timely_filing'', JDict []), (''appeals_process'', JDict []),
              (''key_requirements'', JList []), (''contact_information'', JDict []),
              (''additional_info'', JList [])]"
  let ?m1 = "[(''insurance_provider'', JNull), (''plan_name'', JStr ''Gold''),
              (''plan_type'', JStr ''HMO''), (''document_type'', JNull),
              (''effective_date'', JNull), (''state_specific'', JNull),
              (''coverage_details'', JDict []), (''prior_authorization'', JDict []),
              (''timely_filing'', JDict []), (''appeals_process'', JDict []),
              (''key_requirements'', JList []), (''contact_information'', JDict []),
              (''additional_info'', JList [])]"
  have k: "''plan_type'' \<in> set scalar_keys" by code_simp
  have k': "list_ex (\<lambda>k. k = ''plan_type'') scalar_keys" by code_simp
  have e: "\<forall>r\<in>set ?falsy.
      (case map_of r ''plan_type'' of Some v \<Rightarrow> \<not> truthy v | None \<Rightarrow> True)"
    by code_simp
  have run0: "merge_chunk_results remdups ?falsy = Inr ?m0" by code_simp
  have r1: "map_of ?r ''error'' = None" by code_simp
  have r2: "map_of ?r ''plan_type'' = Some (JStr ''HMO'')" by code_simp
  have r3: "truthy (JStr ''HMO'')" by code_simp
  have run1: "merge_chunk_results remdups (?falsy @ ?r # ?later) = Inr ?m1" by code_simp
  have res0: "map_of ?m0 ''plan_type'' = Some JNull"
    using merge_falsy_scalar_ignored[OF k run0] e by blast
  have res1: "map_of ?m1 ''plan_type'' = Some (JStr ''HMO'')"
    using merge_falsy_scalar_ignored[OF k run1] e r1 r2 r3 by blast
  from e have e': "list_all (\<lambda>r. case map_of r ''plan_type'' of Some v \<Rightarrow> \<not> truthy v | None \<Rightarrow> True)
       ?falsy"
    by (simp only: list_all_iff)
  from k' e' run0 res0 r1 r2 r3 run1 res1 show ?thesis by blast
qed

section \<open>The retry policy of the chunk extraction\<close>

lemma extract_chunk_body_returns:
  "\<exists>result. extract_chunk_body env text_chunk chunk_num total_chunks st
     = (Inr result, st\<lparr>calls := calls st + 1\<rparr>)"
  by (simp add: extract_chunk_body_def Let_def split: sum.splits)

lemma retry_returning: "f s = (Inr v, s') \<Longrightarrow> retry k f s = (Inr v, s')"
  by (cases k) simp_all

text \<open>
  The decorator never calls the body a second time: the body catches every exception
  itself, so the decorated method is the body, and it makes exactly one call to the
  service.
\<close>

lemma extract_chunk_to_json_is_body:
  "extract_chunk_to_json env text_chunk chunk_num total_chunks st
     = extract_chunk_body env text_chunk chunk_num total_chunks st"
proof -
  obtain result where
    "extract_chunk_body env text_chunk chunk_num total_chunks st
       = (Inr result, st\<lparr>calls := calls st + 1\<rparr>)"
    using extract_chunk_body_returns by blast
  then show ?thesis
    by (simp add: extract_chunk_to_json_def stop_after_attempt_def retry_returning)
qed

lemma extract_chunk_to_json_one_call:
  "calls (snd (extract_chunk_to_json env text_chunk chunk_num total_chunks st)) = calls st + 1"
proof -
  obtain result where
    "extract_chunk_body env text_chunk chunk_num total_chunks st
       = (Inr result, st\<lparr>calls := calls st + 1\<rparr>)"
    using extract_chunk_body_returns by blast
  then show ?thesis by (simp add: extract_chunk_to_json_is_body)
qed

lemma extract_chunk_to_json_first_failure:
  assumes "completions_create env (calls st) text_chunk chunk_num total_chunks = Inl e"
  shows "extract_chunk_to_json env text_chunk chunk_num total_chunks st
     = (Inr [(''error'', JStr (str_of_error e)), (''chunk'', JInt chunk_num)],
        st\<lparr>calls := calls st + 1\<rparr>)"
  using assms
  by (simp add: extract_chunk_to_json_is_body extract_chunk_body_def Let_def and_then_def)

text \<open>
  The retry policy itself does what the specification says when the function it wraps
  raises: with the service \<open>flaky\<close>, whose third call succeeds, three attempts are made
  and the third result is returned.
\<close>

lemma stop_after_attempt_recovers:
  "stop_after_attempt 3 (raising_body flaky ''text'' 1 1) \<lparr>calls = 0, written = []\<rparr>
     = (Inr [(''plan_name'', JStr ''X'')], \<lparr>calls = 3, written = []\<rparr>)"
  by code_simp

text \<open>
  Claim C1 fails on the code. The service \<open>flaky\<close> fails on its first two calls and
  succeeds on the third. The chunk extraction makes one call only and returns the error
  marker with the chunk number: the first failure is not retried.
\<close>

theorem extract_chunk_to_json_no_retry:
  "completions_create flaky 0 ''text'' 1 1 = Inl (APIError ''rate limit exceeded'')
   \<and> completions_create flaky 1 ''text'' 1 1 = Inl (APIError ''rate limit exceeded'')
   \<and> and_then (completions_create flaky 2 ''text'' 1 1) (json_loads flaky)
       = Inr [(''plan_name'', JStr ''X'')]
   \<and> extract_chunk_to_json flaky ''text'' 1 1 \<lparr>calls = 0, written = []\<rparr>
       = (Inr [(''error'', JStr ''rate limit exceeded''), (''chunk'', JInt 1)],
          \<lparr>calls = 1, written = []\<rparr>)"
  by code_simp

section \<open>A document that cannot be read, in a batch\<close>

lemma extract_text_unreadable:
  "pdf_pages env pdf_path = Inl e \<Longrightarrow> extract_text_from_pdf env pdf_path = []"
  by (simp add: extract_text_from_pdf_def and_then_def)

text \<open>
  For a file that cannot be opened, the document extraction raises nothing: it returns
  a dictionary with an error entry, without calling the service.
\<close>

lemma extract_to_json_unreadable:
  assumes "pdf_pages env pdf_path = Inl e"
  shows "extract_to_json env pdf_path st
     = (Inr [(''error'', JStr ''Failed to extract text from PDF''), (''file'', JStr pdf_path)],
        st)"
  using extract_text_unreadable[OF assms] by (simp add: extract_to_json_def)

text \<open>
  The batch loop then writes that dictionary to the output file and counts the document
  as successful.
\<close>

lemma batch_step_unreadable:
  assumes "pdf_pages env pdf_path = Inl e"
    and "open_w env (path_join output_dir (splitext_root (basename pdf_path) @ ''.json'')) = None"
  shows "fst (batch_step env output_dir pdf_path (r, st))
     = r\<lparr>successful := successful r + 1,
          files := files r @ [success_entry pdf_path
            (path_join output_dir (splitext_root (basename pdf_path) @ ''.json''))]\<rparr>"
  using assms(2)
  by (simp add: batch_step_def process_pdf_def extract_to_json_unreadable[OF assms(1)] Let_def)

text \<open>
  Claim C2 fails on the code. In the environment \<open>shelf\<close> the second of three documents
  cannot be opened. The batch is not aborted, but the summary reports 3 successful and 0
  failed documents, and the entry of the second document has status \<open>success\<close>, an
  output path and no error; the file written for it holds the error dictionary.
\<close>

theorem batch_process_read_failure_counted_successful:
  "pdf_pages shelf ''docs/b.pdf'' = Inl (OSError ''No such file or directory'')
   \<and> fst (batch_process shelf [''docs/a.pdf'', ''docs/b.pdf'', ''docs/c.pdf''] ''out''
            \<lparr>calls = 0, written = []\<rparr>)
       = Inr \<lparr>total = 3, successful = 3, failed = 0,
              files = [[(''input'', JStr ''docs/a.pdf''), (''output'', JStr ''out/a.json''),
                        (''status'', JStr ''success'')],
                       [(''input'', JStr ''docs/b.pdf''), (''output'', JStr ''out/b.json''),
                        (''status'', JStr ''success'')],
                       [(''input'', JStr ''docs/c.pdf''), (''output'', JStr ''out/c.json''),
                        (''status'', JStr ''success'')]]\<rparr>
   \<and> map_of (written (snd (batch_process shelf [''docs/a.pdf'', ''docs/b.pdf'', ''docs/c.pdf'']
                              ''out'' \<lparr>calls = 0, written = []\<rparr>))) ''out/b.json''
       = Some (JDict [(''error'', JStr ''Failed to extract text from PDF''),
                      (''file'', JStr ''docs/b.pdf'')])"
  by code_simp

end
